theory Spec2Isabelle
  imports Complex_Main "HOL-Library.AList" "HOL-Library.Multiset"
begin

section \<open>Data model\<close>

text \<open>
  The plotting tool reads one JSON log file per benchmark run, folds its records into
  a \<open>plotMeasurements\<close> value, groups the runs by \<open>plotConfig\<close> and renders one chart
  per (configuration, metric) pair.

  Conventions of the embedding:
  \<^item> Go's \<open>int\<close> and \<open>time.Duration\<close> are \<open>int\<close>; the two places where the 64-bit range
    matters (\<open>Time.Sub\<close> saturates, \<open>/\<close> wraps at \<open>minDuration / -1\<close>) write the bounds out.
  \<^item> \<open>float64\<close> values are \<open>real\<close>: the program only stores and copies them.
  \<^item> \<open>time.Time\<close> is the number of nanoseconds since the zero instant
    (January 1, year 1, 00:00:00 UTC), so \<open>IsZero\<close> is equality with \<open>0\<close>.
  \<^item> a Go map is an association list with distinct keys, updated with \<open>AList.update\<close>;
    a missing key reads as the empty slice.
  \<^item> every error return and every run-time panic is a value of type \<open>error\<close>.
\<close>

datatype error =
    OpenError
  | DecodeError
  | DuplicateMarker
  | MissingMarker
  | WriteError
  | IndexOutOfRange
  | DivideByZero

text \<open>
  The \<open>timestamp\<close> field of a record, as \<open>processFile\<close> sees it: the empty string
  (\<open>NoStamp\<close>), a string that \<open>time.Parse\<close> rejects for the fixed layout (\<open>BadStamp\<close>), or
  a string that parses to an instant (\<open>Stamp t\<close>).
\<close>

datatype stamp = NoStamp | BadStamp | Stamp int

record logEntry =
  Level :: string
  Message :: string
  Time :: string
  Engine :: string
  Writers :: int
  Readers :: int
  Size :: int
  Vary :: bool
  Timestamp :: stamp
  Max_v :: real
  Mean_v :: real
  Min_v :: real
  Count :: int
  Rate :: real

record plotConfig =
  Writers :: int
  Readers :: int
  Size :: int
  Vary :: bool

record plotMeasurements =
  Engine :: string
  Config :: plotConfig
  Timestamps :: "int list"
  Data :: "(string \<times> real list list) list"

text \<open>
  What \<open>json.Decoder.Decode\<close> yields for the successive values of a file: a decoded
  entry, or an error. End of file is the end of the list. A path that cannot be opened
  is \<open>Unreadable\<close>.
\<close>

datatype decoded = Malformed | Decoded logEntry

datatype logFile = Unreadable | Contents "decoded list"

section \<open>Library operations used by the program\<close>

definition IsZero :: "int \<Rightarrow> bool" where
  "IsZero t = (t = 0)"

definition minDuration :: int where
  "minDuration = - (2 ^ 63)"

definition maxDuration :: int where
  "maxDuration = 2 ^ 63 - 1"

text \<open>\<open>t.Sub(u)\<close>: the difference, saturated to the range of \<open>time.Duration\<close>.\<close>

definition Sub :: "int \<Rightarrow> int \<Rightarrow> int" where
  "Sub t u =
     (if t - u < minDuration then minDuration
      else if maxDuration < t - u then maxDuration
      else t - u)"

text \<open>Reading a map at a key: the zero value (the nil slice) when the key is absent.\<close>

definition lookup :: "('k \<times> 'v list) list \<Rightarrow> 'k \<Rightarrow> 'v list" where
  "lookup d k = (case map_of d k of None \<Rightarrow> [] | Some v \<Rightarrow> v)"

section \<open>processFile\<close>

text \<open>\<open>measurements.Data[name] = append(measurements.Data[name], row)\<close>\<close>

definition appendData :: "string \<Rightarrow> real list \<Rightarrow> plotMeasurements \<Rightarrow> plotMeasurements" where
  "appendData name row m =
     m\<lparr>Data := AList.update name (lookup (Data m) name @ [row]) (Data m)\<rparr>"

text \<open>
  The timestamp block of the loop body (\<open>if entry.Timestamp != ""\<close>). The state is the
  pair of \<open>start\<close> and \<open>measurements\<close>. Reading the last element of an empty
  \<open>Timestamps\<close> would panic.
\<close>

definition observe :: "stamp \<Rightarrow> int \<times> plotMeasurements \<Rightarrow> error + int \<times> plotMeasurements" where
  "observe s st =
     (case s of
        NoStamp \<Rightarrow> Inr st
      | BadStamp \<Rightarrow> Inl DecodeError
      | Stamp timestamp \<Rightarrow>
          (let start = fst st; m = snd st in
           if IsZero start then Inr (timestamp, m\<lparr>Timestamps := Timestamps m @ [0]\<rparr>)
           else
             (let sinceStart = Sub timestamp start in
              if Timestamps m = [] then Inl IndexOutOfRange
              else if last (Timestamps m) \<noteq> sinceStart
                then Inr (start, m\<lparr>Timestamps := Timestamps m @ [sinceStart]\<rparr>)
              else Inr (start, m))))"

text \<open>The \<open>switch entry.Message\<close> of the loop body.\<close>

definition dispatch :: "logEntry \<Rightarrow> plotMeasurements \<Rightarrow> error + plotMeasurements" where
  "dispatch entry m =
     (if Message entry = ''running'' then
        (if plotMeasurements.Engine m \<noteq> '''' then Inl DuplicateMarker
         else Inr (m\<lparr>plotMeasurements.Engine := logEntry.Engine entry,
                     Config := \<lparr>plotConfig.Writers = logEntry.Writers entry,
                                plotConfig.Readers = logEntry.Readers entry,
                                plotConfig.Size = logEntry.Size entry,
                                plotConfig.Vary = logEntry.Vary entry\<rparr>\<rparr>))
      else if Message entry = ''counter get'' then
        Inr (appendData ''get rate'' [Rate entry] m)
      else if Message entry = ''counter set'' then
        Inr (appendData ''set rate'' [Rate entry] m)
      else if Message entry = ''sample get.ready'' then
        Inr (appendData ''get ready'' [Mean_v entry, Min_v entry, Max_v entry] m)
      else if Message entry = ''sample get.first'' then
        Inr (appendData ''get first'' [Mean_v entry, Min_v entry, Max_v entry] m)
      else if Message entry = ''sample get.total'' then
        Inr (appendData ''get total'' [Mean_v entry, Min_v entry, Max_v entry] m)
      else if Message entry = ''sample set'' then
        Inr (appendData ''set'' [Mean_v entry, Min_v entry, Max_v entry] m)
      else Inr m)"

text \<open>One iteration of the decoding loop on a decoded entry.\<close>

definition step :: "logEntry \<Rightarrow> int \<times> plotMeasurements \<Rightarrow> error + int \<times> plotMeasurements" where
  "step entry st =
     (case observe (Timestamp entry) st of
        Inl e \<Rightarrow> Inl e
      | Inr st' \<Rightarrow>
          (case dispatch entry (snd st') of
             Inl e \<Rightarrow> Inl e
           | Inr m' \<Rightarrow> Inr (fst st', m')))"

text \<open>The \<open>for\<close> loop: it ends at end of file, or returns at the first error.\<close>

fun readLoop :: "decoded list \<Rightarrow> int \<times> plotMeasurements \<Rightarrow> error + int \<times> plotMeasurements" where
  "readLoop [] st = Inr st"
| "readLoop (Malformed # rest) st = Inl DecodeError"
| "readLoop (Decoded entry # rest) st =
     (case step entry st of
        Inl e \<Rightarrow> Inl e
      | Inr st' \<Rightarrow> readLoop rest st')"

text \<open>The state before the first record: the zero \<open>start\<close> and empty measurements.\<close>

definition initial :: "int \<times> plotMeasurements" where
  "initial =
     (0, \<lparr>plotMeasurements.Engine = '''',
          Config = \<lparr>plotConfig.Writers = 0, plotConfig.Readers = 0,
                    plotConfig.Size = 0, plotConfig.Vary = False\<rparr>,
          Timestamps = [], Data = []\<rparr>)"

text \<open>The common length: the first loop after the marker check.\<close>

definition commonLength :: "plotMeasurements \<Rightarrow> nat" where
  "commonLength m =
     fold (\<lambda>nv len. if length (snd nv) < len then length (snd nv) else len)
       (Data m) (length (Timestamps m))"

text \<open>Truncation of the offsets and of every series to the common length.\<close>

definition reconcile :: "plotMeasurements \<Rightarrow> plotMeasurements" where
  "reconcile m =
     (let len = commonLength m in
      m\<lparr>Timestamps := take len (Timestamps m),
        Data := map (\<lambda>nv. (fst nv, take len (snd nv))) (Data m)\<rparr>)"

definition processFile :: "logFile \<Rightarrow> error + plotMeasurements" where
  "processFile f =
     (case f of
        Unreadable \<Rightarrow> Inl OpenError
      | Contents items \<Rightarrow>
          (case readLoop items initial of
             Inl e \<Rightarrow> Inl e
           | Inr st \<Rightarrow>
               if plotMeasurements.Engine (snd st) = '''' then Inl MissingMarker
               else Inr (reconcile (snd st))))"

section \<open>makeLineData\<close>

text \<open>
  Go's \<open>/\<close> on 64-bit integers for a divisor other than zero: the quotient is truncated
  towards zero, and \<open>minDuration / -1\<close> wraps around.
\<close>

definition quo :: "int \<Rightarrow> int \<Rightarrow> int" where
  "quo a b =
     (let q = sgn a * sgn b * (\<bar>a\<bar> div \<bar>b\<bar>) in
      if maxDuration < q then q - 2 ^ 64 else q)"

text \<open>An element of a chart point (\<open>[]interface{}\<close>): a duration or a float.\<close>

datatype cell = DurationCell int | FloatCell real

text \<open>
  The loop of \<open>makeLineData\<close> from index \<open>i\<close> on. \<open>dataIntervalUnit\<close> is a constant
  declared outside the given sources, so it is the parameter \<open>unit\<close>. Reading
  \<open>timestamps[i]\<close> out of range and dividing by zero are panics.
\<close>

fun lineLoop :: "int \<Rightarrow> int list \<Rightarrow> nat \<Rightarrow> real list list \<Rightarrow> error + cell list list" where
  "lineLoop unit timestamps i [] = Inr []"
| "lineLoop unit timestamps i (values # rest) =
     (if length timestamps \<le> i then Inl IndexOutOfRange
      else if unit = 0 then Inl DivideByZero
      else
        (case lineLoop unit timestamps (Suc i) rest of
           Inl e \<Rightarrow> Inl e
         | Inr result \<Rightarrow>
             Inr ((DurationCell (quo (timestamps ! i) unit) # map FloatCell values) # result)))"

definition makeLineData :: "int \<Rightarrow> int list \<Rightarrow> real list list \<Rightarrow> error + cell list list" where
  "makeLineData unit timestamps data = lineLoop unit timestamps 0 data"

section \<open>Charts\<close>

text \<open>The two JavaScript sources the program embeds in its output, as opaque payloads.\<close>

datatype funcStr = renderErrorBars | toggleErrorBars

datatype chartType = ChartLine | ChartCustom

text \<open>A call of \<open>fmt.Sprintf\<close> is kept as its format string and arguments.\<close>

datatype fmtArg =
    IntArg int
  | ByteSizeArg int
  | BoolArg bool
  | StringArg string
  | UnitNameArg int

datatype label = Literal string | Sprintf string "fmtArg list"

record axis =
  Name :: label
  NameLocation :: string
  Type :: string
  NameGap :: int

record userDefined =
  Show :: bool
  Title :: string
  Icon :: string
  OnClick :: funcStr

record toolbox =
  Show :: bool
  RestoreShow :: bool
  UserDefined :: "(string \<times> userDefined) list"

record title =
  Title :: string
  Subtitle :: label

record grid =
  Top :: string
  Left :: string
  Right :: string

record legend =
  Show :: bool
  Left :: string
  Right :: string

record singleSeries =
  Name :: string
  Type :: chartType
  Data :: "cell list list"
  RenderItem :: "funcStr option"
  EncodeX :: "int list"
  EncodeY :: "int list"
  BorderWidth :: "real option"
  Smooth :: bool

record lineChart =
  YAxis :: axis
  Toolbox :: "toolbox option"
  Title :: title
  Grid :: grid
  XAxis :: axis
  Legend :: legend
  Series :: "singleSeries list"

subsection \<open>strings.Contains\<close>

fun HasPrefix :: "string \<Rightarrow> string \<Rightarrow> bool" where
  "HasPrefix s [] = True"
| "HasPrefix [] (c # prefix) = False"
| "HasPrefix (x # s) (c # prefix) = (x = c \<and> HasPrefix s prefix)"

fun Contains :: "string \<Rightarrow> string \<Rightarrow> bool" where
  "Contains [] substr = (substr = [])"
| "Contains (x # s) substr = (HasPrefix (x # s) substr \<or> Contains s substr)"

subsection \<open>renderPlot\<close>

definition errorBarsIcon :: string where
  "errorBarsIcon = ''path://M 11.359041,7.5285047 V 4.5670261 H 2.4746032 v 2.9614786 h 2.9614791 c -0.021137,11.0157323 0,11.0155383 0,20.7303553 H 2.4746032 v 2.961479 H 11.359041 V 28.25886 H 8.397562 c 0.165371,-14.351131 0,0 0,-20.7303553 z M 26.856729,4.3174113 V 1.3559322 h -8.884437 v 2.9614791 h 2.96148 V 22.086287 h -2.96148 v 2.961478 h 8.884437 v -2.961478 h -2.961478 c 0,-17.7688757 0,0 0,-17.7688757 z''"

text \<open>\<open>line.AddSeries(name, data)\<close> of the charting library: a line series, no option set.\<close>

definition AddSeries :: "string \<Rightarrow> cell list list \<Rightarrow> singleSeries" where
  "AddSeries name data =
     \<lparr>singleSeries.Name = name, singleSeries.Type = ChartLine, singleSeries.Data = data,
      RenderItem = None, EncodeX = [], EncodeY = [], BorderWidth = None, Smooth = False\<rparr>"

text \<open>
  The second \<open>AddSeries\<close> call of the loop, with its three options: the custom type
  with the whisker renderer, the encoding and the item style.
\<close>

definition errorBarSeries :: "string \<Rightarrow> cell list list \<Rightarrow> singleSeries" where
  "errorBarSeries name data =
     (AddSeries name data)
       \<lparr>singleSeries.Name := name, singleSeries.Type := ChartCustom,
        RenderItem := Some renderErrorBars,
        EncodeX := [0], EncodeY := [2, 3], BorderWidth := Some 1.5\<rparr>"

text \<open>The loop over \<open>allMeasurements\<close>.\<close>

fun seriesLoop :: "int \<Rightarrow> string \<Rightarrow> plotMeasurements list \<Rightarrow> error + singleSeries list" where
  "seriesLoop unit name [] = Inr []"
| "seriesLoop unit name (measurements # rest) =
     (case makeLineData unit (Timestamps measurements)
             (lookup (plotMeasurements.Data measurements) name) of
        Inl e \<Rightarrow> Inl e
      | Inr data \<Rightarrow>
          (case seriesLoop unit name rest of
             Inl e \<Rightarrow> Inl e
           | Inr series \<Rightarrow>
               Inr (AddSeries (plotMeasurements.Engine measurements) data
                    # (if \<not> Contains name ''rate''
                       then [errorBarSeries (plotMeasurements.Engine measurements) data]
                       else [])
                    @ series)))"

definition yAxisOf :: "string \<Rightarrow> axis" where
  "yAxisOf name =
     \<lparr>axis.Name = Literal name, NameLocation = ''center'', axis.Type = ''value'', NameGap = 50\<rparr>"

definition errorBarsToolbox :: toolbox where
  "errorBarsToolbox =
     \<lparr>toolbox.Show = True, RestoreShow = True,
      UserDefined =
        [(''myErrorBars'',
          \<lparr>userDefined.Show = True, userDefined.Title = ''Toggle error bars'',
           Icon = errorBarsIcon, OnClick = toggleErrorBars\<rparr>)]\<rparr>"

definition renderPlot ::
    "int \<Rightarrow> plotConfig \<Rightarrow> string \<Rightarrow> plotMeasurements list \<Rightarrow> error + lineChart" where
  "renderPlot unit config name allMeasurements =
     (let rate = Contains name ''rate'';
          better = (if rate then ''higher is better'' else ''lower is better'')
      in
        case seriesLoop unit name allMeasurements of
          Inl e \<Rightarrow> Inl e
        | Inr series \<Rightarrow>
            Inr \<lparr>YAxis = (if rate then yAxisOf ''ops/s'' else yAxisOf ''duration (ms)''),
                 Toolbox = (if rate then None else Some errorBarsToolbox),
                 lineChart.Title =
                   \<lparr>title.Title = name,
                    Subtitle =
                      Sprintf (''writers=%d readers=%d size=%s vary=%t'' @ [CHR 0x0A] @ ''%s'')
                        [IntArg (plotConfig.Writers config), IntArg (plotConfig.Readers config),
                         ByteSizeArg (plotConfig.Size config), BoolArg (plotConfig.Vary config),
                         StringArg better]\<rparr>,
                 Grid = \<lparr>Top = ''75'', grid.Left = ''8%'', grid.Right = ''2%''\<rparr>,
                 XAxis =
                   \<lparr>axis.Name = Sprintf ''duration (%s)'' [UnitNameArg unit],
                    NameLocation = ''center'', axis.Type = ''value'', NameGap = 30\<rparr>,
                 Legend = \<lparr>legend.Show = True, legend.Left = ''280'', legend.Right = ''140''\<rparr>,
                 Series = map (\<lambda>s. s\<lparr>Smooth := True\<rparr>) series\<rparr>)"

subsection \<open>The toggle, as the hosting page runs it\<close>

text \<open>
  The JavaScript of \<open>toggleErrorBars\<close> walks the series of a chart: a custom series
  whose \<open>renderItem\<close> is \<open>null\<close> gets the whisker renderer, any other custom series gets
  \<open>null\<close>, and the other series are left as they are. A custom series is hidden when
  it has no renderer.
\<close>

definition toggle :: "singleSeries list \<Rightarrow> singleSeries list" where
  "toggle series =
     map (\<lambda>s. if singleSeries.Type s = ChartCustom
               then (if RenderItem s = None then s\<lparr>RenderItem := Some renderErrorBars\<rparr>
                     else s\<lparr>RenderItem := None\<rparr>)
               else s) series"

definition hidden :: "singleSeries \<Rightarrow> bool" where
  "hidden s = (singleSeries.Type s = ChartCustom \<and> RenderItem s = None)"

section \<open>Run and renderData\<close>

text \<open>
  The \<open>Plot\<close> command. Each path of \<open>Files\<close> is given by what opening and decoding it
  yields.
\<close>

record Plot =
  Files :: "logFile list"
  Output :: string
  Assets :: string

text \<open>How the output file behaves: whether \<open>os.Create\<close> and \<open>page.Render\<close> succeed.\<close>

record sink =
  CreateFails :: bool
  RenderFails :: bool

record page =
  PageTitle :: string
  AssetsHost :: string
  Charts :: "lineChart list"

text \<open>What happened to the output file, in order.\<close>

datatype effect = Created string | Rendered string page

definition metricNames :: "string list" where
  "metricNames = [''get rate'', ''set rate'', ''get ready'', ''get first'', ''get total'', ''set'']"

fun plotLoop ::
    "int \<Rightarrow> plotConfig \<Rightarrow> plotMeasurements list \<Rightarrow> string list \<Rightarrow> error + lineChart list" where
  "plotLoop unit config allMeasurements [] = Inr []"
| "plotLoop unit config allMeasurements (name # rest) =
     (case renderPlot unit config name allMeasurements of
        Inl e \<Rightarrow> Inl e
      | Inr plot \<Rightarrow>
          (case plotLoop unit config allMeasurements rest of
             Inl e \<Rightarrow> Inl e
           | Inr plots \<Rightarrow> Inr (plot # plots)))"

text \<open>
  The loop over the grouped runs. Go leaves the order of a map's keys open; the model
  visits them in the order of their first insertion.
\<close>

fun pageLoop ::
    "int \<Rightarrow> (plotConfig \<times> plotMeasurements list) list \<Rightarrow> error + lineChart list" where
  "pageLoop unit [] = Inr []"
| "pageLoop unit ((config, allMeasurements) # rest) =
     (case plotLoop unit config allMeasurements metricNames of
        Inl e \<Rightarrow> Inl e
      | Inr plots \<Rightarrow>
          (case pageLoop unit rest of
             Inl e \<Rightarrow> Inl e
           | Inr others \<Rightarrow> Inr (plots @ others)))"

definition renderData ::
    "int \<Rightarrow> sink \<Rightarrow> Plot \<Rightarrow> (plotConfig \<times> plotMeasurements list) list
      \<Rightarrow> error option \<times> effect list" where
  "renderData unit out p data =
     (case pageLoop unit data of
        Inl e \<Rightarrow> (Some e, [])
      | Inr plots \<Rightarrow>
          if CreateFails out then (Some WriteError, [])
          else if RenderFails out then (Some WriteError, [Created (Output p)])
          else (None,
                [Created (Output p),
                 Rendered (Output p)
                   \<lparr>PageTitle = ''Results'', AssetsHost = Assets p, Charts = plots\<rparr>]))"

text \<open>The loop of \<open>Run\<close> over the files, threading the grouping map.\<close>

fun fileLoop ::
    "logFile list \<Rightarrow> (plotConfig \<times> plotMeasurements list) list
      \<Rightarrow> error + (plotConfig \<times> plotMeasurements list) list" where
  "fileLoop [] data = Inr data"
| "fileLoop (path # rest) data =
     (case processFile path of
        Inl e \<Rightarrow> Inl e
      | Inr measurements \<Rightarrow>
          fileLoop rest
            (AList.update (Config measurements)
               (lookup data (Config measurements) @ [measurements]) data))"

definition Run :: "int \<Rightarrow> sink \<Rightarrow> Plot \<Rightarrow> error option \<times> effect list" where
  "Run unit out p =
     (case fileLoop (Files p) [] of
        Inl e \<Rightarrow> (Some e, [])
      | Inr data \<Rightarrow> renderData unit out p data)"

section \<open>Notions used in the statements\<close>

text \<open>
  Notions for the statements about the decoding loop: the instants of the timestamped
  records of a stream, in order; its marker records; a stream in which every record
  decodes and every timestamp parses; the configuration a marker declares; the series
  and row a record adds; and the two loop invariants (a set baseline has an offset, no
  recorded series is empty).
\<close>

fun stampsOf :: "decoded list \<Rightarrow> int list" where
  "stampsOf [] = []"
| "stampsOf (Malformed # rest) = stampsOf rest"
| "stampsOf (Decoded entry # rest) =
     (case Timestamp entry of Stamp t \<Rightarrow> t # stampsOf rest | _ \<Rightarrow> stampsOf rest)"

fun markersOf :: "decoded list \<Rightarrow> logEntry list" where
  "markersOf [] = []"
| "markersOf (Malformed # rest) = markersOf rest"
| "markersOf (Decoded entry # rest) =
     (if Message entry = ''running'' then entry # markersOf rest else markersOf rest)"

definition wellFormed :: "decoded \<Rightarrow> bool" where
  "wellFormed item =
     (case item of Malformed \<Rightarrow> False | Decoded entry \<Rightarrow> Timestamp entry \<noteq> BadStamp)"

definition configOf :: "logEntry \<Rightarrow> plotConfig" where
  "configOf entry =
     \<lparr>plotConfig.Writers = logEntry.Writers entry, plotConfig.Readers = logEntry.Readers entry,
      plotConfig.Size = logEntry.Size entry, plotConfig.Vary = logEntry.Vary entry\<rparr>"

definition metricOf :: "logEntry \<Rightarrow> (string \<times> real list) option" where
  "metricOf entry =
     (if Message entry = ''counter get'' then Some (''get rate'', [Rate entry])
      else if Message entry = ''counter set'' then Some (''set rate'', [Rate entry])
      else if Message entry = ''sample get.ready''
        then Some (''get ready'', [Mean_v entry, Min_v entry, Max_v entry])
      else if Message entry = ''sample get.first''
        then Some (''get first'', [Mean_v entry, Min_v entry, Max_v entry])
      else if Message entry = ''sample get.total''
        then Some (''get total'', [Mean_v entry, Min_v entry, Max_v entry])
      else if Message entry = ''sample set''
        then Some (''set'', [Mean_v entry, Min_v entry, Max_v entry])
      else None)"

definition samplesFor :: "string \<Rightarrow> logEntry \<Rightarrow> real list list" where
  "samplesFor name entry =
     (case metricOf entry of
        None \<Rightarrow> []
      | Some nr \<Rightarrow> if fst nr = name then [snd nr] else [])"

definition based :: "int \<times> plotMeasurements \<Rightarrow> bool" where
  "based st = (IsZero (fst st) \<or> Timestamps (snd st) \<noteq> [])"

definition filled :: "plotMeasurements \<Rightarrow> bool" where
  "filled m = list_all (\<lambda>nv. snd nv \<noteq> []) (plotMeasurements.Data m)"

text \<open>
  A run as \<open>processFile\<close> leaves it: every recorded series is as long as the offsets.
\<close>

definition reconciled :: "plotMeasurements \<Rightarrow> bool" where
  "reconciled m =
     list_all (\<lambda>nv. length (snd nv) = length (Timestamps m)) (plotMeasurements.Data m)"

text \<open>The chart point of one data row: the scaled offset, then the values of the row.\<close>

definition pointOf :: "int \<Rightarrow> int \<Rightarrow> real list \<Rightarrow> cell list" where
  "pointOf unit offset row = DurationCell (quo offset unit) # map FloatCell row"

text \<open>The points and the series that one run contributes to the chart of a metric.\<close>

definition pointsOf :: "int \<Rightarrow> string \<Rightarrow> plotMeasurements \<Rightarrow> cell list list" where
  "pointsOf unit name m =
     map2 (pointOf unit) (Timestamps m) (lookup (plotMeasurements.Data m) name)"

definition seriesOf :: "int \<Rightarrow> string \<Rightarrow> plotMeasurements \<Rightarrow> singleSeries list" where
  "seriesOf unit name m =
     AddSeries (plotMeasurements.Engine m) (pointsOf unit name m)
     # (if \<not> Contains name ''rate''
        then [errorBarSeries (plotMeasurements.Engine m) (pointsOf unit name m)]
        else [])"

section \<open>Example inputs\<close>

text \<open>
  The zero value of \<open>logEntry\<close>, which decoding fills in, and the records the workload
  driver writes: the marker, a throughput counter and a latency sample.
\<close>

definition blank :: logEntry where
  "blank =
     \<lparr>Level = '''', Message = '''', Time = '''', logEntry.Engine = '''',
      logEntry.Writers = 0, logEntry.Readers = 0, logEntry.Size = 0, logEntry.Vary = False,
      Timestamp = NoStamp, Max_v = 0, Mean_v = 0, Min_v = 0, Count = 0, Rate = 0\<rparr>"

definition running :: "string \<Rightarrow> logEntry" where
  "running engine =
     blank\<lparr>Message := ''running'', logEntry.Engine := engine, logEntry.Writers := 2,
           logEntry.Readers := 4, logEntry.Size := 1024\<rparr>"

definition counter :: "string \<Rightarrow> int \<Rightarrow> real \<Rightarrow> logEntry" where
  "counter msg t rate = blank\<lparr>Message := msg, Timestamp := Stamp t, Rate := rate\<rparr>"

definition sample :: "string \<Rightarrow> int \<Rightarrow> real \<Rightarrow> real \<Rightarrow> real \<Rightarrow> logEntry" where
  "sample msg t mean lo hi =
     blank\<lparr>Message := msg, Timestamp := Stamp t, Mean_v := mean, Min_v := lo, Max_v := hi\<rparr>"

text \<open>The instant \<open>s\<close> seconds after 2023-01-01 00:00:00 UTC.\<close>

definition instant :: "int \<Rightarrow> int" where
  "instant s = 63808128000000000000 + s * 1000000000"

text \<open>One second as a \<open>time.Duration\<close>, the display unit of the examples.\<close>

definition second :: int where
  "second = 1000000000"

definition config244 :: plotConfig where
  "config244 =
     \<lparr>plotConfig.Writers = 2, plotConfig.Readers = 4, plotConfig.Size = 1024,
      plotConfig.Vary = False\<rparr>"

text \<open>A run with three offsets, two \<open>get\<close> samples and one \<open>set\<close> sample.\<close>

definition raggedFile :: logFile where
  "raggedFile =
     Contents
       [Decoded (running ''X''),
        Decoded (counter ''counter get'' (instant 0) 100),
        Decoded (counter ''counter get'' (instant 1) 150),
        Decoded (counter ''counter set'' (instant 2) 7)]"

definition latencyRun :: plotMeasurements where
  "latencyRun =
     \<lparr>plotMeasurements.Engine = ''X'', Config = config244,
      Timestamps = [0, second, 2 * second],
      plotMeasurements.Data =
        [(''get rate'', [[100], [150], [130]]),
         (''set'', [[3, 1, 5], [4, 2, 6], [5, 3, 8]])]\<rparr>"

definition runFile :: "string \<Rightarrow> real \<Rightarrow> logFile" where
  "runFile engine rate =
     Contents [Decoded (running engine), Decoded (counter ''counter get'' (instant 0) rate)]"

definition measured :: "string \<Rightarrow> real \<Rightarrow> plotMeasurements" where
  "measured engine rate =
     \<lparr>plotMeasurements.Engine = engine, Config = config244, Timestamps = [0],
      plotMeasurements.Data = [(''get rate'', [[rate]])]\<rparr>"

definition variedFile :: logFile where
  "variedFile = Contents [Decoded ((running ''Z'')\<lparr>logEntry.Vary := True\<rparr>)]"

definition variedRun :: plotMeasurements where
  "variedRun =
     \<lparr>plotMeasurements.Engine = ''Z'', Config = config244\<lparr>plotConfig.Vary := True\<rparr>,
      Timestamps = [], plotMeasurements.Data = []\<rparr>"

definition okSink :: sink where
  "okSink = \<lparr>CreateFails = False, RenderFails = False\<rparr>"

definition goodBatch :: Plot where
  "goodBatch =
     \<lparr>Files = [runFile ''X'' 100, runFile ''Y'' 90], Output = ''results.html'',
      Assets = ''https://go-echarts.github.io/go-echarts-assets/assets/''\<rparr>"

definition badBatch :: Plot where
  "badBatch =
     \<lparr>Files = [runFile ''X'' 100, Contents [Decoded (running ''Y''), Malformed]],
      Output = ''results.html'',
      Assets = ''https://go-echarts.github.io/go-echarts-assets/assets/''\<rparr>"

text \<open>A run whose third record is stamped before its second.\<close>

definition outOfOrderFile :: logFile where
  "outOfOrderFile =
     Contents
       [Decoded (running ''X''),
        Decoded (counter ''counter get'' (instant 0) 100),
        Decoded (counter ''counter get'' (instant 2) 150),
        Decoded (counter ''counter get'' (instant 1) 130)]"

text \<open>A run whose first two samples carry the same timestamp.\<close>

definition duplicateFile :: logFile where
  "duplicateFile =
     Contents
       [Decoded (running ''X''),
        Decoded (counter ''counter get'' (instant 0) 100),
        Decoded (counter ''counter get'' (instant 0) 200),
        Decoded (counter ''counter get'' (instant 2) 300)]"

text \<open>
  A run whose two samples are stamped \<open>0001-01-01 00:00:00 +0000 UTC\<close>, the zero
  instant.
\<close>

definition zeroInstantFile :: logFile where
  "zeroInstantFile =
     Contents
       [Decoded (running ''X''),
        Decoded (counter ''counter get'' 0 100),
        Decoded (counter ''counter get'' 0 150)]"

lemmas example_defs =
  blank_def running_def counter_def sample_def instant_def second_def config244_def
  latencyRun_def runFile_def measured_def variedFile_def variedRun_def okSink_def
  goodBatch_def badBatch_def outOfOrderFile_def duplicateFile_def zeroInstantFile_def

lemmas processFile_defs =
  processFile_def step_def observe_def dispatch_def initial_def appendData_def lookup_def
  reconcile_def commonLength_def IsZero_def Sub_def minDuration_def maxDuration_def

section \<open>Reconciliation\<close>

lemma fold_min_conv:
  "fold (\<lambda>nv len. if length (snd nv) < len then length (snd nv) else len) d l
     = Min (insert l ((\<lambda>nv. length (snd nv)) ` set d))"
proof -
  have "(\<lambda>nv len. if length (snd nv) < len then length (snd nv) else len)
          = min \<circ> (\<lambda>nv::'a \<times> 'b list. length (snd nv))"
    by (auto simp: fun_eq_iff)
  then have "fold (\<lambda>nv len. if length (snd nv) < len then length (snd nv) else len) d l
          = fold min (map (\<lambda>nv. length (snd nv)) d) l"
    by (simp add: fold_map)
  also have "\<dots> = Min (set (l # map (\<lambda>nv. length (snd nv)) d))"
    by (rule Min.set_eq_fold [symmetric])
  finally show ?thesis by simp
qed

lemma commonLength_le_stamps: "commonLength m \<le> length (Timestamps m)"
  by (simp add: commonLength_def fold_min_conv)

lemma commonLength_le_series:
  "nv \<in> set (plotMeasurements.Data m) \<Longrightarrow> commonLength m \<le> length (snd nv)"
  by (auto simp: commonLength_def fold_min_conv Min_le_iff)

lemma processFile_InrD:
  assumes "processFile f = Inr r"
  obtains items st where "f = Contents items" and "readLoop items initial = Inr st"
    and "plotMeasurements.Engine (snd st) \<noteq> ''''" and "r = reconcile (snd st)"
  using assms
  by (auto simp: processFile_def split: logFile.splits sum.splits if_splits)

text \<open>
  Claim C1. When \<open>processFile\<close> accepts a file, the state \<open>m\<close> at the end of the stream is
  reconciled with \<open>L\<close>, the minimum of the number of offsets and of the lengths of the
  recorded series: the offsets and every series of the result are the first \<open>L\<close> entries
  of what \<open>m\<close> holds (a prefix, so nothing is padded), every series of the result has
  the length of the offsets of the result, and \<open>L\<close> is at most every length in \<open>m\<close>.
\<close>

theorem reconciliation_lengths:
  assumes "processFile f = Inr r"
  shows "\<exists>items st. f = Contents items \<and> readLoop items initial = Inr st \<and>
     (let m = snd st;
          L = Min (insert (length (Timestamps m))
                     ((\<lambda>nv. length (snd nv)) ` set (plotMeasurements.Data m)))
      in commonLength m = L \<and>
         Timestamps r = take L (Timestamps m) \<and>
         plotMeasurements.Data r
           = map (\<lambda>nv. (fst nv, take L (snd nv))) (plotMeasurements.Data m) \<and>
         length (Timestamps r) = L \<and>
         (\<forall>nv \<in> set (plotMeasurements.Data r). length (snd nv) = length (Timestamps r)) \<and>
         L \<le> length (Timestamps m) \<and>
         (\<forall>nv \<in> set (plotMeasurements.Data m). L \<le> length (snd nv)))"
proof -
  from assms obtain items st where f: "f = Contents items"
    and loop: "readLoop items initial = Inr st"
    and r: "r = reconcile (snd st)"
    by (rule processFile_InrD)
  define m where "m = snd st"
  define L where "L = Min (insert (length (Timestamps m))
                     ((\<lambda>nv. length (snd nv)) ` set (plotMeasurements.Data m)))"
  have cl: "commonLength m = L"
    by (simp add: commonLength_def fold_min_conv L_def)
  have le1: "L \<le> length (Timestamps m)"
    using commonLength_le_stamps [of m] cl by simp
  have le2: "\<forall>nv \<in> set (plotMeasurements.Data m). L \<le> length (snd nv)"
    using commonLength_le_series [of _ m] cl by auto
  have ts: "Timestamps r = take L (Timestamps m)"
    and da: "plotMeasurements.Data r
               = map (\<lambda>nv. (fst nv, take L (snd nv))) (plotMeasurements.Data m)"
    using r cl by (simp_all add: reconcile_def m_def Let_def)
  have len1: "length (Timestamps r) = L" using ts le1 by simp
  have len2: "\<forall>nv \<in> set (plotMeasurements.Data r). length (snd nv) = length (Timestamps r)"
    using da le2 len1 by auto
  show ?thesis
    using f loop cl ts da len1 len2 le1 le2
    unfolding m_def L_def Let_def by blast
qed

theorem reconciliation_lengths_witness:
  "processFile raggedFile
     = Inr \<lparr>plotMeasurements.Engine = ''X'', Config = config244, Timestamps = [0],
            plotMeasurements.Data = [(''get rate'', [[100]]), (''set rate'', [[7]])]\<rparr> \<and>
   (\<exists>items st. raggedFile = Contents items \<and> readLoop items initial = Inr st \<and>
      Timestamps (snd st) = [0, second, 2 * second] \<and>
      plotMeasurements.Data (snd st)
        = [(''get rate'', [[100], [150]]), (''set rate'', [[7]])] \<and>
      commonLength (snd st) = 1)"
proof -
  have run: "processFile raggedFile
     = Inr \<lparr>plotMeasurements.Engine = ''X'', Config = config244, Timestamps = [0],
            plotMeasurements.Data = [(''get rate'', [[100]]), (''set rate'', [[7]])]\<rparr>"
    by (simp add: raggedFile_def processFile_defs example_defs)
  have loop: "readLoop [Decoded (running ''X''),
        Decoded (counter ''counter get'' (instant 0) 100),
        Decoded (counter ''counter get'' (instant 1) 150),
        Decoded (counter ''counter set'' (instant 2) 7)] initial
     = Inr (instant 0, \<lparr>plotMeasurements.Engine = ''X'', Config = config244,
             Timestamps = [0, second, 2 * second],
             plotMeasurements.Data = [(''get rate'', [[100], [150]]), (''set rate'', [[7]])]\<rparr>)"
    by (simp add: processFile_defs example_defs)
  from reconciliation_lengths [OF run] loop show ?thesis
    using run by (auto simp: raggedFile_def Let_def)
qed

section \<open>Chart points\<close>

lemma lineLoop_total:
  assumes "unit \<noteq> 0" and "i + length data \<le> length timestamps"
  shows "lineLoop unit timestamps i data
           = Inr (map2 (pointOf unit) (take (length data) (drop i timestamps)) data)"
  using assms(2)
proof (induction data arbitrary: i)
  case Nil
  show ?case by simp
next
  case (Cons row rest)
  from Cons.prems have i: "i < length timestamps"
    and rest: "Suc i + length rest \<le> length timestamps" by simp_all
  have "drop i timestamps = timestamps ! i # drop (Suc i) timestamps"
    using i by (simp add: Cons_nth_drop_Suc)
  then show ?case
    using Cons.IH [OF rest] i assms(1) by (simp add: pointOf_def)
qed

lemma lookup_in_set:
  "lookup d k \<noteq> [] \<Longrightarrow> (k, lookup d k) \<in> set d"
  by (auto simp: lookup_def split: option.splits dest: map_of_SomeD)

lemma reconciled_lookup:
  assumes "reconciled m"
  shows "length (lookup (plotMeasurements.Data m) name) \<le> length (Timestamps m)"
proof (cases "lookup (plotMeasurements.Data m) name = []")
  case True
  then show ?thesis by simp
next
  case False
  from lookup_in_set [OF this] assms show ?thesis
    by (auto simp: reconciled_def list_all_iff)
qed

text \<open>
  Claim C10. For a reconciled run and any metric name, \<open>makeLineData\<close> returns (no index
  is out of range): one point per data row, the row's offset divided by the display unit
  followed by the values of the row in order. The display unit is a constant of the
  program, which Go requires to be non-zero for the division to compile.
\<close>

theorem makeLineData_total:
  assumes "reconciled m" and "unit \<noteq> 0"
  shows "\<exists>points. makeLineData unit (Timestamps m) (lookup (plotMeasurements.Data m) name)
                    = Inr points \<and>
           length points = length (lookup (plotMeasurements.Data m) name) \<and>
           (\<forall>i < length points.
              i < length (Timestamps m) \<and>
              points ! i = DurationCell (quo (Timestamps m ! i) unit)
                            # map FloatCell (lookup (plotMeasurements.Data m) name ! i))"
proof -
  let ?data = "lookup (plotMeasurements.Data m) name"
  have le: "0 + length ?data \<le> length (Timestamps m)"
    using reconciled_lookup [OF assms(1)] by simp
  have "makeLineData unit (Timestamps m) ?data
          = Inr (map2 (pointOf unit) (take (length ?data) (Timestamps m)) ?data)"
    using lineLoop_total [OF assms(2) le] by (simp add: makeLineData_def)
  moreover have "length (map2 (pointOf unit) (take (length ?data) (Timestamps m)) ?data)
                   = length ?data"
    using le by simp
  moreover have "\<forall>i < length ?data. i < length (Timestamps m) \<and>
      map2 (pointOf unit) (take (length ?data) (Timestamps m)) ?data ! i
        = DurationCell (quo (Timestamps m ! i) unit) # map FloatCell (?data ! i)"
    using le by (simp add: pointOf_def)
  ultimately show ?thesis by simp
qed

theorem makeLineData_total_witness:
  "reconciled latencyRun \<and> second \<noteq> 0 \<and>
   makeLineData second (Timestamps latencyRun) (lookup (plotMeasurements.Data latencyRun) ''set'')
     = Inr [[DurationCell 0, FloatCell 3, FloatCell 1, FloatCell 5],
            [DurationCell 1, FloatCell 4, FloatCell 2, FloatCell 6],
            [DurationCell 2, FloatCell 5, FloatCell 3, FloatCell 8]]"
proof -
  have r: "reconciled latencyRun"
    by (simp add: reconciled_def latencyRun_def)
  have u: "second \<noteq> 0"
    by (simp add: second_def)
  have rows: "lookup (plotMeasurements.Data latencyRun) ''set'' = [[3, 1, 5], [4, 2, 6], [5, 3, 8]]"
    by (simp add: lookup_def latencyRun_def)
  from makeLineData_total [OF r u, of "''set''"] obtain points
    where run: "makeLineData second (Timestamps latencyRun)
                  (lookup (plotMeasurements.Data latencyRun) ''set'') = Inr points"
      and len: "length points = 3"
      and pts: "\<forall>i < length points.
              points ! i = DurationCell (quo (Timestamps latencyRun ! i) second)
                            # map FloatCell (lookup (plotMeasurements.Data latencyRun) ''set'' ! i)"
    unfolding rows by auto
  from len obtain a b c where abc: "points = [a, b, c]"
    by (auto simp: length_Suc_conv numeral_3_eq_3)
  have "a = [DurationCell 0, FloatCell 3, FloatCell 1, FloatCell 5]"
    using pts [rule_format, of 0] unfolding abc rows
    by (simp add: latencyRun_def quo_def maxDuration_def)
  moreover have "b = [DurationCell 1, FloatCell 4, FloatCell 2, FloatCell 6]"
    using pts [rule_format, of 1] unfolding abc rows
    by (simp add: latencyRun_def quo_def second_def maxDuration_def)
  moreover have "c = [DurationCell 2, FloatCell 5, FloatCell 3, FloatCell 8]"
    using pts [rule_format, of 2] unfolding abc rows
    by (simp add: latencyRun_def quo_def second_def maxDuration_def)
  ultimately show ?thesis
    using r u run abc by simp
qed

section \<open>Grouping by configuration\<close>

lemma lookup_update:
  "lookup (AList.update k v d) c = (if c = k then v else lookup d c)"
  by (simp add: lookup_def update_conv')

lemma fileLoop_groups:
  assumes "fileLoop files data = Inr data'"
  shows "\<exists>ms. map processFile files = map Inr ms \<and>
           (\<forall>c. lookup data' c = lookup data c @ filter (\<lambda>m. Config m = c) ms)"
  using assms
proof (induction files arbitrary: data)
  case Nil
  then show ?case by simp
next
  case (Cons path rest)
  from Cons.prems obtain m where m: "processFile path = Inr m"
    and rest: "fileLoop rest (AList.update (Config m) (lookup data (Config m) @ [m]) data)
                 = Inr data'"
    by (auto split: sum.splits)
  from Cons.IH [OF rest] obtain ms where ms: "map processFile rest = map Inr ms"
    and grp: "\<forall>c. lookup data' c
        = lookup (AList.update (Config m) (lookup data (Config m) @ [m]) data) c
          @ filter (\<lambda>m. Config m = c) ms"
    by blast
  have "map processFile (path # rest) = map Inr (m # ms)"
    using m ms by simp
  moreover have "\<forall>c. lookup data' c = lookup data c @ filter (\<lambda>m. Config m = c) (m # ms)"
    using grp by (simp add: lookup_update)
  ultimately show ?case by blast
qed

lemma plotConfig_fieldwise:
  "(c = d) = (plotConfig.Writers c = plotConfig.Writers d \<and>
     plotConfig.Readers c = plotConfig.Readers d \<and>
     plotConfig.Size c = plotConfig.Size d \<and> plotConfig.Vary c = plotConfig.Vary d)"
  for c d :: plotConfig
  by (cases c, cases d) auto

text \<open>
  Claim C9. When the loop of \<open>Run\<close> accepts the files, the group of every configuration is
  the list of the runs with that configuration, in the order the files were processed;
  two runs whose configurations agree on writers, readers, size and vary are in one
  group; and processing the same files in another order gives every configuration the
  same runs.
\<close>

theorem grouping_by_config:
  assumes "fileLoop files [] = Inr data"
    and "fileLoop files' [] = Inr data'"
    and "mset files' = mset files"
  shows "\<exists>ms. map processFile files = map Inr ms \<and>
           (\<forall>c. lookup data c = filter (\<lambda>m. Config m = c) ms) \<and>
           (\<forall>m1 \<in> set ms. \<forall>m2 \<in> set ms.
              plotConfig.Writers (Config m1) = plotConfig.Writers (Config m2) \<and>
              plotConfig.Readers (Config m1) = plotConfig.Readers (Config m2) \<and>
              plotConfig.Size (Config m1) = plotConfig.Size (Config m2) \<and>
              plotConfig.Vary (Config m1) = plotConfig.Vary (Config m2) \<longrightarrow>
              m1 \<in> set (lookup data (Config m1)) \<and> m2 \<in> set (lookup data (Config m1)) \<and>
              m1 \<in> set (lookup data' (Config m1)) \<and> m2 \<in> set (lookup data' (Config m1))) \<and>
           (\<forall>c. mset (lookup data' c) = mset (lookup data c))"
proof -
  from fileLoop_groups [OF assms(1)] obtain ms
    where ms: "map processFile files = map Inr ms"
      and grp: "\<forall>c. lookup data c = filter (\<lambda>m. Config m = c) ms"
    by (auto simp: lookup_def)
  from fileLoop_groups [OF assms(2)] obtain ms'
    where ms': "map processFile files' = map Inr ms'"
      and grp': "\<forall>c. lookup data' c = filter (\<lambda>m. Config m = c) ms'"
    by (auto simp: lookup_def)
  have "map projr (map processFile files) = ms" and "map projr (map processFile files') = ms'"
    unfolding ms ms' by (simp_all add: comp_def)
  then have "mset ms = image_mset (projr \<circ> processFile) (mset files)"
    and "mset ms' = image_mset (projr \<circ> processFile) (mset files')"
    by (metis map_map mset_map)+
  then have perm: "mset ms' = mset ms"
    using assms(3) by simp
  have same: "\<forall>c. mset (lookup data' c) = mset (lookup data c)"
    using grp grp' perm by (simp add: mset_filter)
  have mem: "\<forall>m1 \<in> set ms. \<forall>m2 \<in> set ms. Config m1 = Config m2 \<longrightarrow>
              m1 \<in> set (lookup data (Config m1)) \<and> m2 \<in> set (lookup data (Config m1))"
    using grp by simp
  have mem': "\<forall>m1 \<in> set ms. \<forall>m2 \<in> set ms. Config m1 = Config m2 \<longrightarrow>
              m1 \<in> set (lookup data' (Config m1)) \<and> m2 \<in> set (lookup data' (Config m1))"
    using mem same by (metis set_mset_mset)
  show ?thesis
    using ms grp mem mem' same
    by (intro exI [of _ ms]) (simp add: plotConfig_fieldwise [symmetric])
qed

theorem grouping_by_config_witness:
  "fileLoop [runFile ''X'' 100, variedFile, runFile ''Y'' 90] []
     = Inr [(config244, [measured ''X'' 100, measured ''Y'' 90]),
            (config244\<lparr>plotConfig.Vary := True\<rparr>, [variedRun])] \<and>
   fileLoop [runFile ''Y'' 90, variedFile, runFile ''X'' 100] []
     = Inr [(config244, [measured ''Y'' 90, measured ''X'' 100]),
            (config244\<lparr>plotConfig.Vary := True\<rparr>, [variedRun])] \<and>
   mset [runFile ''Y'' 90, variedFile, runFile ''X'' 100]
     = mset [runFile ''X'' 100, variedFile, runFile ''Y'' 90] \<and>
   (\<exists>ms. map processFile [runFile ''X'' 100, variedFile, runFile ''Y'' 90] = map Inr ms \<and>
      lookup [(config244, [measured ''X'' 100, measured ''Y'' 90]),
              (config244\<lparr>plotConfig.Vary := True\<rparr>, [variedRun])] config244
        = filter (\<lambda>m. Config m = config244) ms)"
proof -
  have px: "processFile (runFile ''X'' 100) = Inr (measured ''X'' 100)"
    by (simp add: processFile_defs example_defs)
  have py: "processFile (runFile ''Y'' 90) = Inr (measured ''Y'' 90)"
    by (simp add: processFile_defs example_defs)
  have pz: "processFile variedFile = Inr variedRun"
    by (simp add: processFile_defs example_defs)
  have cfg: "Config (measured ''X'' 100) = config244" "Config (measured ''Y'' 90) = config244"
    "Config variedRun = config244\<lparr>plotConfig.Vary := True\<rparr>"
    "config244\<lparr>plotConfig.Vary := True\<rparr> \<noteq> config244"
    by (simp_all add: measured_def variedRun_def config244_def)
  have one: "fileLoop [runFile ''X'' 100, variedFile, runFile ''Y'' 90] []
     = Inr [(config244, [measured ''X'' 100, measured ''Y'' 90]),
            (config244\<lparr>plotConfig.Vary := True\<rparr>, [variedRun])]"
    using cfg(4) by (simp add: px py pz cfg(1-3) lookup_def)
  have two: "fileLoop [runFile ''Y'' 90, variedFile, runFile ''X'' 100] []
     = Inr [(config244, [measured ''Y'' 90, measured ''X'' 100]),
            (config244\<lparr>plotConfig.Vary := True\<rparr>, [variedRun])]"
    using cfg(4) by (simp add: px py pz cfg(1-3) lookup_def)
  have perm: "mset [runFile ''Y'' 90, variedFile, runFile ''X'' 100]
     = mset [runFile ''X'' 100, variedFile, runFile ''Y'' 90]"
    by (simp add: add.commute)
  from grouping_by_config [OF one two perm]
  have "\<exists>ms. map processFile [runFile ''X'' 100, variedFile, runFile ''Y'' 90] = map Inr ms \<and>
      lookup [(config244, [measured ''X'' 100, measured ''Y'' 90]),
              (config244\<lparr>plotConfig.Vary := True\<rparr>, [variedRun])] config244
        = filter (\<lambda>m. Config m = config244) ms"
    by blast
  with one two perm show ?thesis by blast
qed

section \<open>Charts of a metric\<close>

lemma makeLineData_reconciled:
  assumes "reconciled m" and "unit \<noteq> 0"
  shows "makeLineData unit (Timestamps m) (lookup (plotMeasurements.Data m) name)
           = Inr (pointsOf unit name m)"
proof -
  let ?rows = "lookup (plotMeasurements.Data m) name"
  have le: "0 + length ?rows \<le> length (Timestamps m)"
    using reconciled_lookup [OF assms(1)] by simp
  have "zip (take (length ?rows) (Timestamps m)) ?rows = zip (Timestamps m) ?rows"
    by (metis take_zip take_all order_refl length_zip min.cobounded2)
  then show ?thesis
    using lineLoop_total [OF assms(2) le] by (simp add: makeLineData_def pointsOf_def)
qed

lemma seriesLoop_total:
  assumes "unit \<noteq> 0" and "list_all reconciled allMeasurements"
  shows "seriesLoop unit name allMeasurements
           = Inr (concat (map (seriesOf unit name) allMeasurements))"
  using assms(2)
proof (induction allMeasurements)
  case Nil
  show ?case by simp
next
  case (Cons m rest)
  then have "reconciled m" and "list_all reconciled rest" by simp_all
  with Cons.IH makeLineData_reconciled [OF _ assms(1), of m name]
  show ?case by (simp add: seriesOf_def)
qed

lemma renderPlot_total:
  assumes "unit \<noteq> 0" and "list_all reconciled allMeasurements"
  shows "\<exists>chart. renderPlot unit config name allMeasurements = Inr chart \<and>
           Series chart
             = map (\<lambda>s. s\<lparr>Smooth := True\<rparr>) (concat (map (seriesOf unit name) allMeasurements))"
  using seriesLoop_total [OF assms, of name]
  by (simp add: renderPlot_def Let_def)

lemma HasPrefix_iff: "HasPrefix s p = (\<exists>ss. s = p @ ss)"
  by (induction s p rule: HasPrefix.induct) auto

lemma Contains_iff: "Contains s sub = (\<exists>ps ss. s = ps @ sub @ ss)"
proof (induction s)
  case Nil
  show ?case by auto
next
  case (Cons x s)
  show ?case
  proof
    assume "Contains (x # s) sub"
    then consider "HasPrefix (x # s) sub" | "Contains s sub" by auto
    then show "\<exists>ps ss. x # s = ps @ sub @ ss"
    proof cases
      case 1
      then obtain ss where "x # s = [] @ sub @ ss" by (auto simp: HasPrefix_iff)
      then show ?thesis by blast
    next
      case 2
      with Cons.IH obtain ps ss where "s = ps @ sub @ ss" by blast
      then have "x # s = (x # ps) @ sub @ ss" by simp
      then show ?thesis by blast
    qed
  next
    assume "\<exists>ps ss. x # s = ps @ sub @ ss"
    then obtain ps ss where eq: "x # s = ps @ sub @ ss" by blast
    show "Contains (x # s) sub"
    proof (cases ps)
      case Nil
      with eq have "HasPrefix (x # s) sub" by (auto simp: HasPrefix_iff)
      then show ?thesis by simp
    next
      case (Cons y ps')
      with eq have "s = ps' @ sub @ ss" by simp
      with Cons.IH have "Contains s sub" by blast
      then show ?thesis by simp
    qed
  qed
qed

text \<open>
  Claim C7. In a chart that \<open>renderPlot\<close> returns, a metric name containing \<open>rate\<close> gives
  the y-axis name \<open>ops/s\<close>, the hint \<open>higher is better\<close> as the last argument of the
  subtitle, and no toolbox; any other name gives the y-axis name \<open>duration (ms)\<close>, the
  hint \<open>lower is better\<close>, and a toolbox whose \<open>myErrorBars\<close> feature runs the toggle.
\<close>

theorem axis_selection:
  assumes "renderPlot unit config name allMeasurements = Inr chart"
  shows "(Contains name ''rate'' \<longrightarrow>
            axis.Name (YAxis chart) = Literal ''ops/s'' \<and>
            (\<exists>fmt args. Subtitle (lineChart.Title chart)
               = Sprintf fmt (args @ [StringArg ''higher is better''])) \<and>
            Toolbox chart = None) \<and>
         (\<not> Contains name ''rate'' \<longrightarrow>
            axis.Name (YAxis chart) = Literal ''duration (ms)'' \<and>
            (\<exists>fmt args. Subtitle (lineChart.Title chart)
               = Sprintf fmt (args @ [StringArg ''lower is better''])) \<and>
            (\<exists>t. Toolbox chart = Some t \<and> toolbox.Show t \<and>
               map_of (UserDefined t) ''myErrorBars''
                 = Some \<lparr>userDefined.Show = True, userDefined.Title = ''Toggle error bars'',
                         Icon = errorBarsIcon, OnClick = toggleErrorBars\<rparr>))"
proof -
  from assms obtain series where
    chart: "chart =
       \<lparr>YAxis = (if Contains name ''rate'' then yAxisOf ''ops/s'' else yAxisOf ''duration (ms)''),
        Toolbox = (if Contains name ''rate'' then None else Some errorBarsToolbox),
        lineChart.Title =
          \<lparr>title.Title = name,
           Subtitle =
             Sprintf (''writers=%d readers=%d size=%s vary=%t'' @ [CHR 0x0A] @ ''%s'')
               ([IntArg (plotConfig.Writers config), IntArg (plotConfig.Readers config),
                ByteSizeArg (plotConfig.Size config), BoolArg (plotConfig.Vary config)] @
                [StringArg (if Contains name ''rate'' then ''higher is better''
                            else ''lower is better'')])\<rparr>,
        Grid = \<lparr>Top = ''75'', grid.Left = ''8%'', grid.Right = ''2%''\<rparr>,
        XAxis =
          \<lparr>axis.Name = Sprintf ''duration (%s)'' [UnitNameArg unit],
           NameLocation = ''center'', axis.Type = ''value'', NameGap = 30\<rparr>,
        Legend = \<lparr>legend.Show = True, legend.Left = ''280'', legend.Right = ''140''\<rparr>,
        Series = series\<rparr>"
    by (auto simp: renderPlot_def Let_def split: sum.splits)
  show ?thesis
  proof (cases "Contains name ''rate''")
    case True
    then have "Subtitle (lineChart.Title chart)
        = Sprintf (''writers=%d readers=%d size=%s vary=%t'' @ [CHR 0x0A] @ ''%s'')
               ([IntArg (plotConfig.Writers config), IntArg (plotConfig.Readers config),
                ByteSizeArg (plotConfig.Size config), BoolArg (plotConfig.Vary config)] @
                [StringArg ''higher is better''])"
      by (simp add: chart)
    then have "\<exists>fmt args. Subtitle (lineChart.Title chart)
               = Sprintf fmt (args @ [StringArg ''higher is better''])"
      by blast
    with True show ?thesis by (simp add: chart yAxisOf_def)
  next
    case False
    then have "Subtitle (lineChart.Title chart)
        = Sprintf (''writers=%d readers=%d size=%s vary=%t'' @ [CHR 0x0A] @ ''%s'')
               ([IntArg (plotConfig.Writers config), IntArg (plotConfig.Readers config),
                ByteSizeArg (plotConfig.Size config), BoolArg (plotConfig.Vary config)] @
                [StringArg ''lower is better''])"
      by (simp add: chart)
    then have "\<exists>fmt args. Subtitle (lineChart.Title chart)
               = Sprintf fmt (args @ [StringArg ''lower is better''])"
      by blast
    with False show ?thesis by (simp add: chart yAxisOf_def errorBarsToolbox_def)
  qed
qed

theorem axis_selection_witness:
  "(\<exists>chart. renderPlot second config244 ''get rate'' [latencyRun] = Inr chart \<and>
      Contains ''get rate'' ''rate'' \<and>
      axis.Name (YAxis chart) = Literal ''ops/s'' \<and> Toolbox chart = None) \<and>
   (\<exists>chart. renderPlot second config244 ''set'' [latencyRun] = Inr chart \<and>
      \<not> Contains ''set'' ''rate'' \<and>
      axis.Name (YAxis chart) = Literal ''duration (ms)'' \<and>
      (\<exists>t. Toolbox chart = Some t \<and> toolbox.Show t))"
proof -
  have u: "second \<noteq> 0" by (simp add: second_def)
  have r: "list_all reconciled [latencyRun]" by (simp add: reconciled_def latencyRun_def)
  have yes: "Contains ''get rate'' ''rate''" by simp
  have no: "\<not> Contains ''set'' ''rate''" by simp
  from renderPlot_total [OF u r, of config244 "''get rate''"] obtain c1
    where c1: "renderPlot second config244 ''get rate'' [latencyRun] = Inr c1" by blast
  from renderPlot_total [OF u r, of config244 "''set''"] obtain c2
    where c2: "renderPlot second config244 ''set'' [latencyRun] = Inr c2" by blast
  from axis_selection [OF c1] yes
  have one: "axis.Name (YAxis c1) = Literal ''ops/s'' \<and> Toolbox c1 = None" by blast
  from axis_selection [OF c2] no
  have two: "axis.Name (YAxis c2) = Literal ''duration (ms)'' \<and>
      (\<exists>t. Toolbox c2 = Some t \<and> toolbox.Show t)" by blast
  from c1 c2 yes no one two show ?thesis by blast
qed

lemma toggle_hides_shown:
  assumes "\<forall>s \<in> set series. singleSeries.Type s = ChartCustom \<longrightarrow> RenderItem s \<noteq> None"
  shows "\<forall>s \<in> set (toggle series). singleSeries.Type s = ChartCustom \<longrightarrow> hidden s"
  using assms by (auto simp: toggle_def hidden_def)

text \<open>
  Claim C6, amended. In the chart of a metric whose name does not contain \<open>rate\<close>, every
  run contributes a line series and, right after it, a custom series with the same
  points (the scaled offset followed by the values of the row), encoded with x from
  position 0 and y from positions 2 and 3. The custom series is emitted with the whisker
  renderer attached, so no series of the chart is hidden at first; it is hidden after
  the toggle has run once.
\<close>

theorem latency_series:
  assumes "\<not> Contains name ''rate''" and "unit \<noteq> 0"
    and "list_all reconciled allMeasurements"
  shows "\<exists>chart. renderPlot unit config name allMeasurements = Inr chart \<and>
           Series chart
             = concat (map (\<lambda>m.
                 [\<lparr>singleSeries.Name = plotMeasurements.Engine m,
                   singleSeries.Type = ChartLine,
                   singleSeries.Data = pointsOf unit name m,
                   RenderItem = None, EncodeX = [], EncodeY = [],
                   BorderWidth = None, Smooth = True\<rparr>,
                  \<lparr>singleSeries.Name = plotMeasurements.Engine m,
                   singleSeries.Type = ChartCustom,
                   singleSeries.Data = pointsOf unit name m,
                   RenderItem = Some renderErrorBars, EncodeX = [0], EncodeY = [2, 3],
                   BorderWidth = Some 1.5, Smooth = True\<rparr>]) allMeasurements) \<and>
           (\<forall>s \<in> set (Series chart). \<not> hidden s) \<and>
           (\<forall>s \<in> set (toggle (Series chart)). singleSeries.Type s = ChartCustom \<longrightarrow> hidden s)"
proof -
  from renderPlot_total [OF assms(2,3), of config name] obtain chart
    where run: "renderPlot unit config name allMeasurements = Inr chart"
      and ser: "Series chart
             = map (\<lambda>s. s\<lparr>Smooth := True\<rparr>) (concat (map (seriesOf unit name) allMeasurements))"
    by blast
  have shape: "Series chart
             = concat (map (\<lambda>m.
                 [\<lparr>singleSeries.Name = plotMeasurements.Engine m,
                   singleSeries.Type = ChartLine,
                   singleSeries.Data = pointsOf unit name m,
                   RenderItem = None, EncodeX = [], EncodeY = [],
                   BorderWidth = None, Smooth = True\<rparr>,
                  \<lparr>singleSeries.Name = plotMeasurements.Engine m,
                   singleSeries.Type = ChartCustom,
                   singleSeries.Data = pointsOf unit name m,
                   RenderItem = Some renderErrorBars, EncodeX = [0], EncodeY = [2, 3],
                   BorderWidth = Some 1.5, Smooth = True\<rparr>]) allMeasurements)"
    unfolding ser using assms(1)
    by (simp add: map_concat comp_def seriesOf_def AddSeries_def errorBarSeries_def)
  have shown: "\<forall>s \<in> set (Series chart).
      singleSeries.Type s = ChartCustom \<longrightarrow> RenderItem s \<noteq> None"
    unfolding shape by auto
  then have nothidden: "\<forall>s \<in> set (Series chart). \<not> hidden s"
    by (auto simp: hidden_def)
  from run shape nothidden toggle_hides_shown [OF shown] show ?thesis by blast
qed

theorem latency_series_witness:
  "\<not> Contains ''set'' ''rate'' \<and> second \<noteq> 0 \<and> list_all reconciled [latencyRun] \<and>
   (\<exists>chart. renderPlot second config244 ''set'' [latencyRun] = Inr chart \<and>
      Series chart
        = [\<lparr>singleSeries.Name = ''X'', singleSeries.Type = ChartLine,
            singleSeries.Data =
              [[DurationCell 0, FloatCell 3, FloatCell 1, FloatCell 5],
               [DurationCell 1, FloatCell 4, FloatCell 2, FloatCell 6],
               [DurationCell 2, FloatCell 5, FloatCell 3, FloatCell 8]],
            RenderItem = None, EncodeX = [], EncodeY = [],
            BorderWidth = None, Smooth = True\<rparr>,
           \<lparr>singleSeries.Name = ''X'', singleSeries.Type = ChartCustom,
            singleSeries.Data =
              [[DurationCell 0, FloatCell 3, FloatCell 1, FloatCell 5],
               [DurationCell 1, FloatCell 4, FloatCell 2, FloatCell 6],
               [DurationCell 2, FloatCell 5, FloatCell 3, FloatCell 8]],
            RenderItem = Some renderErrorBars, EncodeX = [0], EncodeY = [2, 3],
            BorderWidth = Some 1.5, Smooth = True\<rparr>] \<and>
      (\<forall>s \<in> set (Series chart). \<not> hidden s))"
proof -
  have a: "\<not> Contains ''set'' ''rate''" by simp
  have b: "second \<noteq> 0" by (simp add: second_def)
  have c: "list_all reconciled [latencyRun]" by (simp add: reconciled_def latencyRun_def)
  have pts: "pointsOf second ''set'' latencyRun
       = [[DurationCell 0, FloatCell 3, FloatCell 1, FloatCell 5],
          [DurationCell 1, FloatCell 4, FloatCell 2, FloatCell 6],
          [DurationCell 2, FloatCell 5, FloatCell 3, FloatCell 8]]"
    by (simp add: pointsOf_def pointOf_def lookup_def latencyRun_def quo_def second_def
          maxDuration_def)
  have eng: "plotMeasurements.Engine latencyRun = ''X''" by (simp add: latencyRun_def)
  from latency_series [OF a b c, of config244]
  obtain chart where "renderPlot second config244 ''set'' [latencyRun] = Inr chart"
    and "Series chart
        = [\<lparr>singleSeries.Name = ''X'', singleSeries.Type = ChartLine,
            singleSeries.Data =
              [[DurationCell 0, FloatCell 3, FloatCell 1, FloatCell 5],
               [DurationCell 1, FloatCell 4, FloatCell 2, FloatCell 6],
               [DurationCell 2, FloatCell 5, FloatCell 3, FloatCell 8]],
            RenderItem = None, EncodeX = [], EncodeY = [],
            BorderWidth = None, Smooth = True\<rparr>,
           \<lparr>singleSeries.Name = ''X'', singleSeries.Type = ChartCustom,
            singleSeries.Data =
              [[DurationCell 0, FloatCell 3, FloatCell 1, FloatCell 5],
               [DurationCell 1, FloatCell 4, FloatCell 2, FloatCell 6],
               [DurationCell 2, FloatCell 5, FloatCell 3, FloatCell 8]],
            RenderItem = Some renderErrorBars, EncodeX = [0], EncodeY = [2, 3],
            BorderWidth = Some 1.5, Smooth = True\<rparr>]"
    and "\<forall>s \<in> set (Series chart). \<not> hidden s"
    unfolding pts eng list.map concat.simps append.simps by blast
  with a b c show ?thesis by blast
qed

text \<open>
  The custom series of the \<open>set\<close> chart of one run, as emitted: it carries the whisker
  renderer and is not hidden.
\<close>

theorem aux_series_not_hidden:
  "map_sum id (map RenderItem \<circ> Series) (renderPlot second config244 ''set'' [latencyRun])
     = Inr [None, Some renderErrorBars] \<and>
   map_sum id (map hidden \<circ> Series) (renderPlot second config244 ''set'' [latencyRun])
     = Inr [False, False]"
  by (simp add: renderPlot_def makeLineData_def lookup_def latencyRun_def second_def
        AddSeries_def errorBarSeries_def hidden_def)

section \<open>The batch\<close>

lemma fileLoop_Inl_iff:
  "(\<exists>e. fileLoop files data = Inl e) = (\<exists>f \<in> set files. \<exists>e. processFile f = Inl e)"
proof (induction files arbitrary: data)
  case Nil
  show ?case by simp
next
  case (Cons path rest)
  show ?case
  proof (cases "processFile path")
    case (Inl e)
    then show ?thesis by auto
  next
    case (Inr m)
    then show ?thesis
      using Cons.IH [of "AList.update (Config m) (lookup data (Config m) @ [m]) data"]
      by auto
  qed
qed

lemma fileLoop_first_failure:
  assumes "fileLoop files data = Inl e"
  shows "\<exists>pre f post. files = pre @ f # post \<and>
           (\<forall>g \<in> set pre. \<exists>m. processFile g = Inr m) \<and> processFile f = Inl e"
  using assms
proof (induction files arbitrary: data)
  case Nil
  then show ?case by simp
next
  case (Cons path rest)
  show ?case
  proof (cases "processFile path")
    case (Inl e')
    with Cons.prems have "e' = e" by simp
    with Inl have "path # rest = [] @ path # rest \<and>
        (\<forall>g \<in> set []. \<exists>m. processFile g = Inr m) \<and> processFile path = Inl e"
      by simp
    then show ?thesis by blast
  next
    case (Inr m)
    with Cons.prems
    have "fileLoop rest (AList.update (Config m) (lookup data (Config m) @ [m]) data) = Inl e"
      by simp
    from Cons.IH [OF this] obtain pre f post where "rest = pre @ f # post"
      and "\<forall>g \<in> set pre. \<exists>m. processFile g = Inr m" and "processFile f = Inl e"
      by blast
    with Inr have "path # rest = (path # pre) @ f # post \<and>
        (\<forall>g \<in> set (path # pre). \<exists>m. processFile g = Inr m) \<and> processFile f = Inl e"
      by simp
    then show ?thesis by blast
  qed
qed

lemma renderData_effects:
  "snd (renderData unit out p data) \<noteq> [] \<Longrightarrow> \<exists>plots. pageLoop unit data = Inr plots"
  by (auto simp: renderData_def split: sum.splits)

lemma set_update_cases:
  "x \<in> set (AList.update k v d) \<Longrightarrow> x = (k, v) \<or> x \<in> set d"
  by (induction d) (auto split: if_splits)

lemma reconcile_reconciled: "reconciled (reconcile m)"
proof -
  have "\<forall>nv \<in> set (plotMeasurements.Data m).
          min (length (snd nv)) (commonLength m) = commonLength m"
    using commonLength_le_series [of _ m] by (simp add: min_absorb2)
  moreover have "min (length (Timestamps m)) (commonLength m) = commonLength m"
    using commonLength_le_stamps [of m] by (simp add: min_absorb2)
  ultimately show ?thesis
    by (simp add: reconciled_def reconcile_def Let_def list_all_iff)
qed

lemma processFile_reconciled: "processFile f = Inr m \<Longrightarrow> reconciled m"
  by (erule processFile_InrD) (simp add: reconcile_reconciled)

lemma fileLoop_reconciled:
  assumes "fileLoop files data = Inr data'"
    and "\<forall>g \<in> set data. list_all reconciled (snd g)"
  shows "\<forall>g \<in> set data'. list_all reconciled (snd g)"
  using assms
proof (induction files arbitrary: data)
  case Nil
  then show ?case by simp
next
  case (Cons path rest)
  from Cons.prems(1) obtain m where m: "processFile path = Inr m"
    and rest: "fileLoop rest (AList.update (Config m) (lookup data (Config m) @ [m]) data)
                 = Inr data'"
    by (auto split: sum.splits)
  have old: "list_all reconciled (lookup data (Config m))"
  proof (cases "lookup data (Config m) = []")
    case True
    then show ?thesis by simp
  next
    case False
    from lookup_in_set [OF this] Cons.prems(2) show ?thesis by auto
  qed
  have "\<forall>g \<in> set (AList.update (Config m) (lookup data (Config m) @ [m]) data).
          list_all reconciled (snd g)"
  proof
    fix g assume "g \<in> set (AList.update (Config m) (lookup data (Config m) @ [m]) data)"
    from set_update_cases [OF this] old processFile_reconciled [OF m] Cons.prems(2)
    show "list_all reconciled (snd g)" by auto
  qed
  from Cons.IH [OF rest this] show ?case .
qed

lemma plotLoop_total:
  assumes "unit \<noteq> 0" and "list_all reconciled allMeasurements"
  shows "\<exists>plots. plotLoop unit config allMeasurements names = Inr plots"
proof (induction names)
  case Nil
  show ?case by simp
next
  case (Cons name rest)
  from renderPlot_total [OF assms, of config name] Cons.IH show ?case by auto
qed

lemma pageLoop_total:
  assumes "unit \<noteq> 0" and "\<forall>g \<in> set data. list_all reconciled (snd g)"
  shows "\<exists>plots. pageLoop unit data = Inr plots"
  using assms(2)
proof (induction data)
  case Nil
  show ?case by simp
next
  case (Cons g rest)
  obtain config allMeasurements where g: "g = (config, allMeasurements)" by (cases g)
  with Cons.prems have "list_all reconciled allMeasurements" by simp
  from plotLoop_total [OF assms(1) this, of config metricNames] Cons.IH Cons.prems g
  show ?case by auto
qed

lemma Run_total:
  assumes "unit \<noteq> 0" and "\<forall>f \<in> set (Files p). \<exists>m. processFile f = Inr m"
    and "\<not> CreateFails out" and "\<not> RenderFails out"
  shows "\<exists>plots. Run unit out p
           = (None, [Created (Output p),
                     Rendered (Output p)
                       \<lparr>PageTitle = ''Results'', AssetsHost = Assets p, Charts = plots\<rparr>])"
proof -
  from assms(2) have "\<not> (\<exists>e. fileLoop (Files p) [] = Inl e)"
    unfolding fileLoop_Inl_iff by auto
  then obtain data where data: "fileLoop (Files p) [] = Inr data"
    by (cases "fileLoop (Files p) []") auto
  from fileLoop_reconciled [OF data] have "\<forall>g \<in> set data. list_all reconciled (snd g)"
    by simp
  from pageLoop_total [OF assms(1) this] obtain plots where "pageLoop unit data = Inr plots"
    by blast
  with data assms(3,4) show ?thesis by (simp add: Run_def renderData_def)
qed

text \<open>
  Claim C5. If \<open>processFile\<close> fails on some file of the batch, \<open>Run\<close> returns the error of
  the first file that fails and nothing happens to the output file; and whenever
  something happens to the output file, every file of the batch was accepted and every
  chart was built.
\<close>

theorem Run_all_or_nothing:
  "((\<exists>f \<in> set (Files p). \<exists>e. processFile f = Inl e) \<longrightarrow>
      (\<exists>e pre f post. Run unit out p = (Some e, []) \<and> Files p = pre @ f # post \<and>
         (\<forall>g \<in> set pre. \<exists>m. processFile g = Inr m) \<and> processFile f = Inl e)) \<and>
   (snd (Run unit out p) \<noteq> [] \<longrightarrow>
      (\<forall>f \<in> set (Files p). \<exists>m. processFile f = Inr m) \<and>
      (\<exists>data plots. fileLoop (Files p) [] = Inr data \<and> pageLoop unit data = Inr plots))"
proof (rule conjI; rule impI)
  assume "\<exists>f \<in> set (Files p). \<exists>e. processFile f = Inl e"
  then obtain e where e: "fileLoop (Files p) [] = Inl e"
    using fileLoop_Inl_iff [of "Files p" "[]"] by blast
  then have "Run unit out p = (Some e, [])" by (simp add: Run_def)
  with fileLoop_first_failure [OF e]
  show "\<exists>e pre f post. Run unit out p = (Some e, []) \<and> Files p = pre @ f # post \<and>
         (\<forall>g \<in> set pre. \<exists>m. processFile g = Inr m) \<and> processFile f = Inl e"
    by blast
next
  assume eff: "snd (Run unit out p) \<noteq> []"
  then obtain data where data: "fileLoop (Files p) [] = Inr data"
    by (cases "fileLoop (Files p) []") (simp_all add: Run_def)
  then have nofail: "\<not> (\<exists>e. fileLoop (Files p) [] = Inl e)" by simp
  have all: "\<forall>f \<in> set (Files p). \<exists>m. processFile f = Inr m"
  proof
    fix f assume "f \<in> set (Files p)"
    with nofail fileLoop_Inl_iff [of "Files p" "[]"]
    have "\<not> (\<exists>e. processFile f = Inl e)" by blast
    then show "\<exists>m. processFile f = Inr m" by (cases "processFile f") auto
  qed
  from eff data have "snd (renderData unit out p data) \<noteq> []" by (simp add: Run_def)
  from renderData_effects [OF this] data all
  show "(\<forall>f \<in> set (Files p). \<exists>m. processFile f = Inr m) \<and>
      (\<exists>data plots. fileLoop (Files p) [] = Inr data \<and> pageLoop unit data = Inr plots)"
    by blast
qed

theorem Run_all_or_nothing_witness:
  "(\<exists>f \<in> set (Files badBatch). \<exists>e. processFile f = Inl e) \<and>
   Run second okSink badBatch = (Some DecodeError, []) \<and>
   (\<exists>pre f post. Files badBatch = pre @ f # post \<and>
      (\<forall>g \<in> set pre. \<exists>m. processFile g = Inr m) \<and> processFile f = Inl DecodeError) \<and>
   snd (Run second okSink goodBatch) \<noteq> [] \<and>
   map processFile (Files goodBatch) = [Inr (measured ''X'' 100), Inr (measured ''Y'' 90)]"
proof -
  have px: "processFile (runFile ''X'' 100) = Inr (measured ''X'' 100)"
    by (simp add: processFile_defs example_defs)
  have py: "processFile (runFile ''Y'' 90) = Inr (measured ''Y'' 90)"
    by (simp add: processFile_defs example_defs)
  have pb: "processFile (Contents [Decoded (running ''Y''), Malformed]) = Inl DecodeError"
    by (simp add: processFile_defs example_defs)
  have bad: "\<exists>f \<in> set (Files badBatch). \<exists>e. processFile f = Inl e"
    by (simp add: badBatch_def pb)
  have run: "Run second okSink badBatch = (Some DecodeError, [])"
    by (simp add: Run_def badBatch_def px pb)
  have good: "\<forall>f \<in> set (Files goodBatch). \<exists>m. processFile f = Inr m"
    by (simp add: goodBatch_def px py)
  have "second \<noteq> 0" by (simp add: second_def)
  from Run_total [OF this good, of okSink]
  have eff: "snd (Run second okSink goodBatch) \<noteq> []"
    by (auto simp: okSink_def)
  from Run_all_or_nothing [of badBatch second okSink] bad run
  have first: "\<exists>pre f post. Files badBatch = pre @ f # post \<and>
      (\<forall>g \<in> set pre. \<exists>m. processFile g = Inr m) \<and> processFile f = Inl DecodeError"
    by (metis Pair_inject option.inject)
  from Run_all_or_nothing [of goodBatch second okSink] eff
  have "\<forall>f \<in> set (Files goodBatch). \<exists>m. processFile f = Inr m"
    by blast
  moreover have "map processFile (Files goodBatch)
      = [Inr (measured ''X'' 100), Inr (measured ''Y'' 90)]"
    by (simp add: goodBatch_def px py)
  ultimately show ?thesis using bad run first eff by blast
qed

section \<open>The decoding loop\<close>

subsection \<open>Offsets\<close>

lemma Sub_self: "Sub t t = 0"
  by (simp add: Sub_def minDuration_def maxDuration_def)

lemma Sub_mono: "p \<le> t \<Longrightarrow> Sub p start \<le> Sub t start"
  by (simp add: Sub_def minDuration_def maxDuration_def)

lemma dispatch_Timestamps: "dispatch entry m = Inr m' \<Longrightarrow> Timestamps m' = Timestamps m"
  by (auto simp: dispatch_def appendData_def split: if_splits)

lemma sorted_wrt_snoc:
  assumes "sorted_wrt (<) xs" and "xs \<noteq> []" and "last xs < (x::int)"
  shows "sorted_wrt (<) (xs @ [x])"
proof -
  have "\<forall>y \<in> set xs. y \<le> last xs"
    using assms(1,2)
    by (induction xs) (auto simp: less_imp_le)
  with assms show ?thesis
    by (auto simp: sorted_wrt_append)
qed

text \<open>What one iteration does to the offsets, by the timestamp of the record.\<close>

lemma step_NoStamp:
  assumes "step entry (start, m) = Inr st'" and "Timestamp entry = NoStamp"
  shows "fst st' = start \<and> Timestamps (snd st') = Timestamps m"
  using assms
  by (auto simp: step_def observe_def split: sum.splits dest: dispatch_Timestamps)

lemma step_BadStamp: "Timestamp entry = BadStamp \<Longrightarrow> step entry st = Inl DecodeError"
  by (simp add: step_def observe_def)

lemma step_first:
  assumes "step entry (start, m) = Inr st'" and "Timestamp entry = Stamp t" and "IsZero start"
  shows "fst st' = t \<and> Timestamps (snd st') = Timestamps m @ [0]"
  using assms
  by (auto simp: step_def observe_def Let_def split: sum.splits dest: dispatch_Timestamps)

lemma step_later:
  assumes "step entry (start, m) = Inr st'" and "Timestamp entry = Stamp t"
    and "\<not> IsZero start"
  shows "fst st' = start \<and> Timestamps m \<noteq> [] \<and>
         Timestamps (snd st')
           = (if last (Timestamps m) \<noteq> Sub t start then Timestamps m @ [Sub t start]
              else Timestamps m)"
  using assms
  by (auto simp: step_def observe_def Let_def split: sum.splits if_splits
        dest: dispatch_Timestamps)

lemma readLoop_increasing_later:
  assumes "readLoop items (start, m) = Inr st'"
    and "\<not> IsZero start" and "sorted_wrt (<) (Timestamps m)"
    and "last (Timestamps m) = Sub p start" and "sorted (p # stampsOf items)"
  shows "sorted_wrt (<) (Timestamps (snd st'))"
  using assms
proof (induction items arbitrary: m p)
  case Nil
  then show ?case by auto
next
  case (Cons item rest)
  show ?case
  proof (cases item)
    case Malformed
    with Cons.prems(1) show ?thesis by simp
  next
    case (Decoded entry)
    with Cons.prems(1) obtain st1 where st1: "step entry (start, m) = Inr st1"
      and rest: "readLoop rest st1 = Inr st'"
      by (auto split: sum.splits)
    obtain s1 m1 where sm: "st1 = (s1, m1)" by (cases st1)
    show ?thesis
    proof (cases "Timestamp entry")
      case NoStamp
      with step_NoStamp [OF st1] sm have "s1 = start" "Timestamps m1 = Timestamps m" by simp_all
      moreover from NoStamp Decoded Cons.prems(5) have "sorted (p # stampsOf rest)" by simp
      ultimately show ?thesis
        using Cons.IH [of m1 p] rest sm Cons.prems(2-4) by simp
    next
      case BadStamp
      with step_BadStamp [of entry "(start, m)"] st1 show ?thesis by simp
    next
      case (Stamp t)
      from step_later [OF st1 Stamp Cons.prems(2)] sm
      have s1: "s1 = start" and ne: "Timestamps m \<noteq> []"
        and ts: "Timestamps m1
           = (if last (Timestamps m) \<noteq> Sub t start then Timestamps m @ [Sub t start]
              else Timestamps m)"
        by simp_all
      from Stamp Decoded Cons.prems(5) have pt: "p \<le> t" and srt: "sorted (t # stampsOf rest)"
        by simp_all
      from Sub_mono [OF pt] Cons.prems(4) have le: "last (Timestamps m) \<le> Sub t start"
        by simp
      have sorted1: "sorted_wrt (<) (Timestamps m1)"
      proof (cases "last (Timestamps m) = Sub t start")
        case True
        with ts Cons.prems(3) show ?thesis by simp
      next
        case False
        with le have "last (Timestamps m) < Sub t start" by simp
        from sorted_wrt_snoc [OF Cons.prems(3) ne this] ts False show ?thesis by simp
      qed
      have last1: "last (Timestamps m1) = Sub t start"
        using ts by simp
      from Cons.IH [of m1 t] rest sm s1 Cons.prems(2) sorted1 last1 srt
      show ?thesis by simp
    qed
  qed
qed

lemma readLoop_increasing_first:
  assumes "readLoop items (start, m) = Inr st'"
    and "IsZero start" and "Timestamps m = []"
    and "sorted (stampsOf items)" and "take 1 (stampsOf items) \<noteq> [0]"
  shows "sorted_wrt (<) (Timestamps (snd st'))"
  using assms
proof (induction items arbitrary: m)
  case Nil
  then show ?case by auto
next
  case (Cons item rest)
  show ?case
  proof (cases item)
    case Malformed
    with Cons.prems(1) show ?thesis by simp
  next
    case (Decoded entry)
    with Cons.prems(1) obtain st1 where st1: "step entry (start, m) = Inr st1"
      and rest: "readLoop rest st1 = Inr st'"
      by (auto split: sum.splits)
    obtain s1 m1 where sm: "st1 = (s1, m1)" by (cases st1)
    show ?thesis
    proof (cases "Timestamp entry")
      case NoStamp
      with step_NoStamp [OF st1] sm have "s1 = start" "Timestamps m1 = Timestamps m" by simp_all
      moreover from NoStamp Decoded Cons.prems(4,5)
      have "sorted (stampsOf rest)" "take 1 (stampsOf rest) \<noteq> [0]" by simp_all
      ultimately show ?thesis
        using Cons.IH [of m1] rest sm Cons.prems(2,3) by simp
    next
      case BadStamp
      with step_BadStamp [of entry "(start, m)"] st1 show ?thesis by simp
    next
      case (Stamp t)
      from step_first [OF st1 Stamp Cons.prems(2)] sm Cons.prems(3)
      have s1: "s1 = t" and ts: "Timestamps m1 = [0]" by simp_all
      from Stamp Decoded Cons.prems(4,5) have t: "\<not> IsZero t" and srt: "sorted (t # stampsOf rest)"
        by (simp_all add: IsZero_def)
      have "last (Timestamps m1) = Sub t t" using ts by (simp add: Sub_self)
      from readLoop_increasing_later [of rest t m1 st' t] rest sm s1 t ts this srt
      show ?thesis by simp
    qed
  qed
qed

lemma readLoop_hd:
  assumes "readLoop items st = Inr st'"
    and "Timestamps (snd st) \<noteq> [] \<longrightarrow> hd (Timestamps (snd st)) = 0"
  shows "Timestamps (snd st') \<noteq> [] \<longrightarrow> hd (Timestamps (snd st')) = 0"
  using assms
proof (induction items arbitrary: st)
  case Nil
  then show ?case by simp
next
  case (Cons item rest)
  show ?case
  proof (cases item)
    case Malformed
    with Cons.prems(1) show ?thesis by simp
  next
    case (Decoded entry)
    with Cons.prems(1) obtain st1 where st1: "step entry st = Inr st1"
      and rest: "readLoop rest st1 = Inr st'"
      by (auto split: sum.splits)
    obtain start m where st: "st = (start, m)" by (cases st)
    have "Timestamps (snd st1) \<noteq> [] \<longrightarrow> hd (Timestamps (snd st1)) = 0"
    proof (cases "Timestamp entry")
      case NoStamp
      with step_NoStamp [of entry start m st1] st1 st Cons.prems(2) show ?thesis by simp
    next
      case BadStamp
      with step_BadStamp [of entry st] st1 show ?thesis by simp
    next
      case (Stamp t)
      show ?thesis
      proof (cases "IsZero start")
        case True
        from step_first [OF _ Stamp True, of m st1] st1 st Cons.prems(2)
        show ?thesis by (cases "Timestamps m") simp_all
      next
        case False
        from step_later [OF _ Stamp False, of m st1] st1 st Cons.prems(2)
        show ?thesis by (cases "Timestamps m") (simp_all split: if_splits)
      qed
    qed
    from Cons.IH [OF rest this] show ?thesis .
  qed
qed

lemma appendData_filled: "filled m \<Longrightarrow> filled (appendData name row m)"
  by (auto simp: filled_def appendData_def list_all_iff dest: set_update_cases)

lemma dispatch_filled: "dispatch entry m = Inr m' \<Longrightarrow> filled m \<Longrightarrow> filled m'"
  by (auto simp: dispatch_def filled_def split: if_splits
        intro: appendData_filled [unfolded filled_def])

lemma observe_Data:
  "observe s st = Inr st' \<Longrightarrow> plotMeasurements.Data (snd st') = plotMeasurements.Data (snd st)"
  by (cases s; cases st) (auto simp: observe_def Let_def split: if_splits)

lemma step_filled:
  assumes "step entry st = Inr st'" and "filled (snd st)"
  shows "filled (snd st')"
proof -
  from assms(1) obtain st1 where o: "observe (Timestamp entry) st = Inr st1"
    and d: "dispatch entry (snd st1) = Inr (snd st')"
    by (auto simp: step_def split: sum.splits)
  from observe_Data [OF o] assms(2) have "filled (snd st1)" by (simp add: filled_def)
  from dispatch_filled [OF d this] show ?thesis .
qed

lemma readLoop_filled:
  assumes "readLoop items st = Inr st'" and "filled (snd st)"
  shows "filled (snd st')"
  using assms
proof (induction items arbitrary: st)
  case Nil
  then show ?case by simp
next
  case (Cons item rest)
  show ?case
  proof (cases item)
    case Malformed
    with Cons.prems(1) show ?thesis by simp
  next
    case (Decoded entry)
    with Cons.prems(1) obtain st1 where st1: "step entry st = Inr st1"
      and rest: "readLoop rest st1 = Inr st'"
      by (auto split: sum.splits)
    from Cons.IH [OF rest step_filled [OF st1 Cons.prems(2)]] show ?thesis .
  qed
qed

lemma step_grows:
  assumes "step entry st = Inr st'"
  shows "length (Timestamps (snd st)) \<le> length (Timestamps (snd st')) \<and>
         (Timestamp entry \<noteq> NoStamp \<longrightarrow> Timestamps (snd st') \<noteq> [])"
proof -
  obtain start m where st: "st = (start, m)" by (cases st)
  show ?thesis
  proof (cases "Timestamp entry")
    case NoStamp
    with step_NoStamp [of entry start m st'] assms st show ?thesis by simp
  next
    case BadStamp
    with step_BadStamp [of entry st] assms show ?thesis by simp
  next
    case (Stamp t)
    show ?thesis
    proof (cases "IsZero start")
      case True
      from step_first [OF _ Stamp True, of m st'] assms st Stamp show ?thesis by simp
    next
      case False
      from step_later [OF _ Stamp False, of m st'] assms st Stamp show ?thesis
        by (auto split: if_splits)
    qed
  qed
qed

lemma readLoop_grows:
  assumes "readLoop items st = Inr st'"
  shows "length (Timestamps (snd st)) \<le> length (Timestamps (snd st')) \<and>
         (stampsOf items \<noteq> [] \<longrightarrow> Timestamps (snd st') \<noteq> [])"
  using assms
proof (induction items arbitrary: st)
  case Nil
  then show ?case by simp
next
  case (Cons item rest)
  show ?case
  proof (cases item)
    case Malformed
    with Cons.prems(1) show ?thesis by simp
  next
    case (Decoded entry)
    with Cons.prems(1) obtain st1 where st1: "step entry st = Inr st1"
      and rest: "readLoop rest st1 = Inr st'"
      by (auto split: sum.splits)
    from step_grows [OF st1] Cons.IH [OF rest] Decoded show ?thesis
      by (cases "Timestamp entry") auto
  qed
qed

lemma commonLength_positive:
  assumes "filled m" and "Timestamps m \<noteq> []"
  shows "0 < commonLength m"
  using assms
  by (auto simp: commonLength_def fold_min_conv filled_def list_all_iff)

text \<open>
  Claim C2, amended. For every file that \<open>processFile\<close> accepts: when some record
  carries a timestamp the offsets are not empty; when they are not empty the first
  offset is zero; and when the timestamps appear in non-decreasing order and the first
  of them is not the zero instant, the offsets are strictly increasing.
\<close>

theorem offsets_increasing:
  assumes "processFile (Contents items) = Inr r"
  shows "(stampsOf items \<noteq> [] \<longrightarrow> Timestamps r \<noteq> []) \<and>
         (Timestamps r \<noteq> [] \<longrightarrow> hd (Timestamps r) = 0) \<and>
         (sorted (stampsOf items) \<and> take 1 (stampsOf items) \<noteq> [0] \<longrightarrow>
            sorted_wrt (<) (Timestamps r))"
proof -
  from assms obtain st where loop: "readLoop items initial = Inr st"
    and r: "r = reconcile (snd st)"
    by (auto elim: processFile_InrD)
  have ts: "Timestamps r = take (commonLength (snd st)) (Timestamps (snd st))"
    using r by (simp add: reconcile_def Let_def)
  have "filled (snd initial)" by (simp add: filled_def initial_def)
  from readLoop_filled [OF loop this] have fl: "filled (snd st)" .
  have some: "Timestamps r \<noteq> []" if "stampsOf items \<noteq> []"
  proof -
    from readLoop_grows [OF loop] that have "Timestamps (snd st) \<noteq> []" by simp
    with commonLength_positive [OF fl this] show ?thesis unfolding ts by simp
  qed
  have "Timestamps (snd st) \<noteq> [] \<longrightarrow> hd (Timestamps (snd st)) = 0"
    using readLoop_hd [OF loop] by (simp add: initial_def)
  then have first: "Timestamps r \<noteq> [] \<longrightarrow> hd (Timestamps r) = 0"
    unfolding ts by (cases "commonLength (snd st)") auto
  have "sorted_wrt (<) (Timestamps r)"
    if "sorted (stampsOf items)" and "take 1 (stampsOf items) \<noteq> [0]"
  proof -
    have "sorted_wrt (<) (Timestamps (snd st))"
      using readLoop_increasing_first [of items 0 "snd initial" st] loop that
      by (simp add: initial_def IsZero_def)
    then show ?thesis unfolding ts by (rule sorted_wrt_take)
  qed
  with some first show ?thesis by blast
qed

theorem offsets_increasing_witness:
  "processFile (Contents [Decoded (running ''X''),
        Decoded (counter ''counter get'' (instant 0) 100),
        Decoded (counter ''counter get'' (instant 0) 200),
        Decoded (counter ''counter get'' (instant 2) 300)])
     = Inr \<lparr>plotMeasurements.Engine = ''X'', Config = config244,
            Timestamps = [0, 2 * second],
            plotMeasurements.Data = [(''get rate'', [[100], [200]])]\<rparr> \<and>
   stampsOf [Decoded (running ''X''),
        Decoded (counter ''counter get'' (instant 0) 100),
        Decoded (counter ''counter get'' (instant 0) 200),
        Decoded (counter ''counter get'' (instant 2) 300)]
     = [instant 0, instant 0, instant 2] \<and>
   sorted [instant 0, instant 0, instant 2] \<and>
   take 1 [instant 0, instant 0, instant 2] \<noteq> [0] \<and>
   sorted_wrt (<) [0, 2 * second] \<and> hd [0, 2 * second] = 0"
proof -
  let ?items = "[Decoded (running ''X''),
        Decoded (counter ''counter get'' (instant 0) 100),
        Decoded (counter ''counter get'' (instant 0) 200),
        Decoded (counter ''counter get'' (instant 2) 300)]"
  let ?r = "\<lparr>plotMeasurements.Engine = ''X'', Config = config244,
            Timestamps = [0, 2 * second],
            plotMeasurements.Data = [(''get rate'', [[100], [200]])]\<rparr>"
  have run: "processFile (Contents ?items) = Inr ?r"
    by (simp add: processFile_defs example_defs)
  have st: "stampsOf ?items = [instant 0, instant 0, instant 2]"
    by (simp add: example_defs)
  have srt: "sorted [instant 0, instant 0, instant 2]"
    and nz: "take 1 [instant 0, instant 0, instant 2] \<noteq> [0]"
    by (simp_all add: instant_def)
  from offsets_increasing [OF run] st srt nz
  have "sorted_wrt (<) (Timestamps ?r)" and "hd (Timestamps ?r) = 0"
    by auto
  then have "sorted_wrt (<) [0, 2 * second]" and "hd [0, 2 * second] = 0"
    by simp_all
  with run st srt nz show ?thesis by blast
qed

text \<open>
  Timestamps out of order give offsets out of order: the file is accepted and the
  third offset is below the second.
\<close>

theorem offsets_out_of_order:
  "map_sum id Timestamps (processFile outOfOrderFile) = Inr [0, 2 * second, second] \<and>
   \<not> sorted_wrt (<) [0, 2 * second, second]"
  by (simp add: outOfOrderFile_def processFile_defs example_defs)

subsection \<open>Records at the offset of their predecessor\<close>

lemma dispatch_metric:
  assumes "Message entry \<noteq> ''running''"
  shows "dispatch entry m
           = Inr (case metricOf entry of None \<Rightarrow> m
                  | Some nr \<Rightarrow> appendData (fst nr) (snd nr) m)"
  using assms by (simp add: dispatch_def metricOf_def)

lemma lookup_appendData:
  "lookup (plotMeasurements.Data (appendData n row m)) name
     = lookup (plotMeasurements.Data m) name @ (if n = name then [row] else [])"
  by (simp add: appendData_def lookup_update)

lemma dispatch_running_Data:
  "Message entry = ''running'' \<Longrightarrow> dispatch entry m = Inr m' \<Longrightarrow>
     plotMeasurements.Data m' = plotMeasurements.Data m"
  by (auto simp: dispatch_def split: if_splits)

lemma dispatch_lookup:
  assumes "dispatch entry m = Inr m'"
  shows "lookup (plotMeasurements.Data m') name
           = lookup (plotMeasurements.Data m) name @ samplesFor name entry"
proof (cases "Message entry = ''running''")
  case True
  then have "metricOf entry = None" by (simp add: metricOf_def)
  with dispatch_running_Data [OF True assms] show ?thesis by (simp add: samplesFor_def)
next
  case False
  from dispatch_metric [OF False, of m] assms show ?thesis
    by (auto simp: samplesFor_def lookup_appendData split: option.splits)
qed

text \<open>
  The state in which the loop meets a record is the state the loop leaves after the
  records before it, so a statement about one iteration from any state holds at every
  record of every file.
\<close>

lemma readLoop_snoc:
  "readLoop (items @ [Decoded entry]) st
     = (case readLoop items st of Inl e \<Rightarrow> Inl e | Inr st' \<Rightarrow> step entry st')"
proof (induction items arbitrary: st)
  case Nil
  show ?case by (simp split: sum.splits)
next
  case (Cons item rest)
  show ?case
  proof (cases item)
    case Malformed
    then show ?thesis by simp
  next
    case (Decoded first)
    with Cons.IH show ?thesis by (simp split: sum.splits)
  qed
qed

text \<open>
  Claim C3, amended. Once the baseline is set, a record other than the marker whose
  timestamp yields the offset that is already the last one adds no offset (nothing is
  averaged), and the loop goes on; but the sample of the record is still appended to
  the series of its metric, and every other series is unchanged.
\<close>

theorem coalesced_record:
  assumes "Timestamp entry = Stamp t" and "\<not> IsZero start"
    and "Timestamps m \<noteq> []" and "last (Timestamps m) = Sub t start"
    and "Message entry \<noteq> ''running''"
  shows "\<exists>m'. step entry (start, m) = Inr (start, m') \<and>
           Timestamps m' = Timestamps m \<and>
           (\<forall>name. lookup (plotMeasurements.Data m') name
                      = lookup (plotMeasurements.Data m) name @ samplesFor name entry)"
proof -
  have obs: "observe (Timestamp entry) (start, m) = Inr (start, m)"
    using assms(1-4) by (simp add: observe_def Let_def)
  from dispatch_metric [OF assms(5), of m] obtain m' where d: "dispatch entry m = Inr m'"
    by blast
  from obs d have "step entry (start, m) = Inr (start, m')"
    by (simp add: step_def)
  with dispatch_Timestamps [OF d] dispatch_lookup [OF d] show ?thesis by blast
qed

theorem coalesced_record_witness:
  "Timestamp (counter ''counter get'' (instant 0) 200) = Stamp (instant 0) \<and>
   \<not> IsZero (instant 0) \<and> Timestamps (measured ''X'' 100) \<noteq> [] \<and>
   last (Timestamps (measured ''X'' 100)) = Sub (instant 0) (instant 0) \<and>
   Message (counter ''counter get'' (instant 0) 200) \<noteq> ''running'' \<and>
   (\<exists>m'. step (counter ''counter get'' (instant 0) 200) (instant 0, measured ''X'' 100)
            = Inr (instant 0, m') \<and>
      Timestamps m' = [0] \<and>
      lookup (plotMeasurements.Data m') ''get rate'' = [[100], [200]] \<and>
      lookup (plotMeasurements.Data m') ''set rate'' = [])"
proof -
  have a: "Timestamp (counter ''counter get'' (instant 0) 200) = Stamp (instant 0)"
    by (simp add: counter_def blank_def)
  have b: "\<not> IsZero (instant 0)" by (simp add: IsZero_def instant_def)
  have c: "Timestamps (measured ''X'' 100) \<noteq> []" by (simp add: measured_def)
  have d: "last (Timestamps (measured ''X'' 100)) = Sub (instant 0) (instant 0)"
    by (simp add: measured_def Sub_self)
  have e: "Message (counter ''counter get'' (instant 0) 200) \<noteq> ''running''"
    by (simp add: counter_def blank_def)
  have s1: "samplesFor ''get rate'' (counter ''counter get'' (instant 0) 200) = [[200]]"
    and s2: "samplesFor ''set rate'' (counter ''counter get'' (instant 0) 200) = []"
    by (simp_all add: samplesFor_def metricOf_def counter_def blank_def)
  have l1: "lookup (plotMeasurements.Data (measured ''X'' 100)) ''get rate'' = [[100]]"
    and l2: "lookup (plotMeasurements.Data (measured ''X'' 100)) ''set rate'' = []"
    and l3: "Timestamps (measured ''X'' 100) = [0]"
    by (simp_all add: lookup_def measured_def)
  from coalesced_record [OF a b c d e] obtain m'
    where "step (counter ''counter get'' (instant 0) 200) (instant 0, measured ''X'' 100)
            = Inr (instant 0, m')"
      and "Timestamps m' = Timestamps (measured ''X'' 100)"
      and "\<forall>name. lookup (plotMeasurements.Data m') name
                      = lookup (plotMeasurements.Data (measured ''X'' 100)) name
                        @ samplesFor name (counter ''counter get'' (instant 0) 200)"
    by blast
  then have "\<exists>m'. step (counter ''counter get'' (instant 0) 200) (instant 0, measured ''X'' 100)
            = Inr (instant 0, m') \<and>
      Timestamps m' = [0] \<and>
      lookup (plotMeasurements.Data m') ''get rate'' = [[100], [200]] \<and>
      lookup (plotMeasurements.Data m') ''set rate'' = []"
    using s1 s2 l1 l2 l3 by (intro exI [of _ m']) simp
  with a b c d e show ?thesis by blast
qed

text \<open>
  The second sample of this file carries the timestamp of the first: the result has
  one offset for the two, and the sample is in the series, where it is paired with the
  next offset.
\<close>

theorem duplicate_sample_kept:
  "processFile duplicateFile
     = Inr \<lparr>plotMeasurements.Engine = ''X'', Config = config244,
            Timestamps = [0, 2 * second],
            plotMeasurements.Data = [(''get rate'', [[100], [200]])]\<rparr>"
  by (simp add: duplicateFile_def processFile_defs example_defs)

subsection \<open>The marker\<close>

lemma observe_based:
  assumes "s \<noteq> BadStamp" and "based st"
  shows "\<exists>st'. observe s st = Inr st' \<and> based st' \<and>
           plotMeasurements.Engine (snd st') = plotMeasurements.Engine (snd st) \<and>
           Config (snd st') = Config (snd st)"
  using assms by (cases s; cases st) (auto simp: observe_def based_def Let_def)

lemma dispatch_other:
  assumes "Message entry \<noteq> ''running''"
  shows "\<exists>m'. dispatch entry m = Inr m' \<and> Timestamps m' = Timestamps m \<and>
           plotMeasurements.Engine m' = plotMeasurements.Engine m \<and> Config m' = Config m"
  using assms by (simp add: dispatch_def appendData_def)

lemma dispatch_marker:
  assumes "Message entry = ''running''"
  shows "dispatch entry m
           = (if plotMeasurements.Engine m \<noteq> '''' then Inl DuplicateMarker
              else Inr (m\<lparr>plotMeasurements.Engine := logEntry.Engine entry,
                          Config := configOf entry\<rparr>))"
  using assms by (simp add: dispatch_def configOf_def)

lemma step_other:
  assumes "Timestamp entry \<noteq> BadStamp" and "based st" and "Message entry \<noteq> ''running''"
  shows "\<exists>st'. step entry st = Inr st' \<and> based st' \<and>
           plotMeasurements.Engine (snd st') = plotMeasurements.Engine (snd st) \<and>
           Config (snd st') = Config (snd st)"
proof -
  from observe_based [OF assms(1,2)] obtain st1
    where o: "observe (Timestamp entry) st = Inr st1" and b: "based st1"
      and e: "plotMeasurements.Engine (snd st1) = plotMeasurements.Engine (snd st)"
      and c: "Config (snd st1) = Config (snd st)"
    by blast
  from dispatch_other [OF assms(3), of "snd st1"] obtain m'
    where d: "dispatch entry (snd st1) = Inr m'" and t: "Timestamps m' = Timestamps (snd st1)"
      and e': "plotMeasurements.Engine m' = plotMeasurements.Engine (snd st1)"
      and c': "Config m' = Config (snd st1)"
    by blast
  from o d have "step entry st = Inr (fst st1, m')" by (simp add: step_def)
  moreover from b t have "based (fst st1, m')" by (simp add: based_def)
  ultimately show ?thesis using e c e' c' by auto
qed

lemma step_marker_seen:
  assumes "Timestamp entry \<noteq> BadStamp" and "based st" and "Message entry = ''running''"
    and "plotMeasurements.Engine (snd st) \<noteq> ''''"
  shows "step entry st = Inl DuplicateMarker"
proof -
  from observe_based [OF assms(1,2)] obtain st1
    where "observe (Timestamp entry) st = Inr st1"
      and "plotMeasurements.Engine (snd st1) = plotMeasurements.Engine (snd st)"
    by blast
  with assms(4) dispatch_marker [OF assms(3), of "snd st1"] show ?thesis
    by (simp add: step_def)
qed

lemma step_marker_first:
  assumes "Timestamp entry \<noteq> BadStamp" and "based st" and "Message entry = ''running''"
    and "plotMeasurements.Engine (snd st) = ''''"
  shows "\<exists>st'. step entry st = Inr st' \<and> based st' \<and>
           plotMeasurements.Engine (snd st') = logEntry.Engine entry \<and>
           Config (snd st') = configOf entry"
proof -
  from observe_based [OF assms(1,2)] obtain st1
    where o: "observe (Timestamp entry) st = Inr st1" and b: "based st1"
      and e: "plotMeasurements.Engine (snd st1) = plotMeasurements.Engine (snd st)"
    by blast
  let ?m = "(snd st1)\<lparr>plotMeasurements.Engine := logEntry.Engine entry,
                        Config := configOf entry\<rparr>"
  from o e assms(4) dispatch_marker [OF assms(3), of "snd st1"]
  have "step entry st = Inr (fst st1, ?m)" by (simp add: step_def)
  moreover from b have "based (fst st1, ?m)" by (simp add: based_def)
  ultimately show ?thesis by auto
qed

text \<open>The loop from a state in which the marker has been seen.\<close>

lemma readLoop_marker_seen:
  assumes "list_all wellFormed items" and "based st"
    and "plotMeasurements.Engine (snd st) \<noteq> ''''"
  shows "if markersOf items = []
         then \<exists>st'. readLoop items st = Inr st' \<and>
                plotMeasurements.Engine (snd st') = plotMeasurements.Engine (snd st) \<and>
                Config (snd st') = Config (snd st)
         else readLoop items st = Inl DuplicateMarker"
  using assms
proof (induction items arbitrary: st)
  case Nil
  then show ?case by simp
next
  case (Cons item rest)
  from Cons.prems(1) have wf: "wellFormed item" and rest: "list_all wellFormed rest"
    by simp_all
  from wf obtain entry where item: "item = Decoded entry"
    and ok: "Timestamp entry \<noteq> BadStamp"
    by (cases item) (auto simp: wellFormed_def)
  show ?case
  proof (cases "Message entry = ''running''")
    case True
    from step_marker_seen [OF ok Cons.prems(2) True Cons.prems(3)] item True
    show ?thesis by simp
  next
    case False
    from step_other [OF ok Cons.prems(2) False] obtain st1
      where s: "step entry st = Inr st1" and b: "based st1"
        and e: "plotMeasurements.Engine (snd st1) = plotMeasurements.Engine (snd st)"
        and c: "Config (snd st1) = Config (snd st)"
      by blast
    from e Cons.prems(3) have "plotMeasurements.Engine (snd st1) \<noteq> ''''" by simp
    note ih = Cons.IH [OF rest b this]
    have unfold: "readLoop (item # rest) st = readLoop rest st1"
      using s item by simp
    have mk: "markersOf (item # rest) = markersOf rest"
      using item False by simp
    show ?thesis unfolding unfold mk using ih e c by auto
  qed
qed

text \<open>The loop from a state in which no marker has set the engine yet.\<close>

lemma readLoop_marker_unseen:
  assumes "list_all wellFormed items" and "based st"
    and "plotMeasurements.Engine (snd st) = ''''"
    and "list_all (\<lambda>e. logEntry.Engine e \<noteq> '''') (markersOf items)"
  shows "case markersOf items of
           [] \<Rightarrow> \<exists>st'. readLoop items st = Inr st' \<and> plotMeasurements.Engine (snd st') = ''''
         | [e] \<Rightarrow> \<exists>st'. readLoop items st = Inr st' \<and>
                    plotMeasurements.Engine (snd st') = logEntry.Engine e \<and>
                    Config (snd st') = configOf e
         | _ \<Rightarrow> readLoop items st = Inl DuplicateMarker"
  using assms
proof (induction items arbitrary: st)
  case Nil
  then show ?case by simp
next
  case (Cons item rest)
  from Cons.prems(1) have wf: "wellFormed item" and rest: "list_all wellFormed rest"
    by simp_all
  from wf obtain entry where item: "item = Decoded entry"
    and ok: "Timestamp entry \<noteq> BadStamp"
    by (cases item) (auto simp: wellFormed_def)
  show ?case
  proof (cases "Message entry = ''running''")
    case True
    with Cons.prems(4) item have named: "logEntry.Engine entry \<noteq> ''''" by simp
    from step_marker_first [OF ok Cons.prems(2) True Cons.prems(3)] obtain st1
      where s: "step entry st = Inr st1" and b: "based st1"
        and e: "plotMeasurements.Engine (snd st1) = logEntry.Engine entry"
        and c: "Config (snd st1) = configOf entry"
      by blast
    from e named have "plotMeasurements.Engine (snd st1) \<noteq> ''''" by simp
    note seen = readLoop_marker_seen [OF rest b this]
    have unfold: "readLoop (item # rest) st = readLoop rest st1"
      using s item by simp
    have mk: "markersOf (item # rest) = entry # markersOf rest"
      using item True by simp
    show ?thesis unfolding unfold mk using seen e c
      by (cases "markersOf rest") auto
  next
    case False
    from step_other [OF ok Cons.prems(2) False] obtain st1
      where s: "step entry st = Inr st1" and b: "based st1"
        and e: "plotMeasurements.Engine (snd st1) = plotMeasurements.Engine (snd st)"
      by blast
    from e Cons.prems(3) have e1: "plotMeasurements.Engine (snd st1) = ''''" by simp
    from Cons.prems(4) item False
    have "list_all (\<lambda>e. logEntry.Engine e \<noteq> '''') (markersOf rest)" by simp
    note ih = Cons.IH [OF rest b e1 this]
    have unfold: "readLoop (item # rest) st = readLoop rest st1"
      using s item by simp
    have mk: "markersOf (item # rest) = markersOf rest"
      using item False by simp
    show ?thesis unfolding unfold mk using ih .
  qed
qed

lemma reconcile_Engine:
  "plotMeasurements.Engine (reconcile m) = plotMeasurements.Engine m"
  "Config (reconcile m) = Config m"
  by (simp_all add: reconcile_def Let_def)

text \<open>
  Claim C4, amended. For a stream in which every record decodes, every timestamp
  parses and every marker names an engine: \<open>processFile\<close> fails with
  \<open>MissingMarker\<close> exactly when the stream has no marker, fails with
  \<open>DuplicateMarker\<close> exactly when it has two or more, and for a single marker returns
  a run with the engine and the configuration of that marker.
\<close>

theorem marker_outcomes:
  assumes "list_all wellFormed items"
    and "list_all (\<lambda>e. logEntry.Engine e \<noteq> '''') (markersOf items)"
  shows "(processFile (Contents items) = Inl MissingMarker) = (markersOf items = []) \<and>
         (processFile (Contents items) = Inl DuplicateMarker) = (2 \<le> length (markersOf items)) \<and>
         (\<forall>e. markersOf items = [e] \<longrightarrow>
            (\<exists>r. processFile (Contents items) = Inr r \<and>
               plotMeasurements.Engine r = logEntry.Engine e \<and> Config r = configOf e))"
proof -
  have b: "based initial" and e: "plotMeasurements.Engine (snd initial) = ''''"
    by (simp_all add: based_def initial_def IsZero_def)
  note loop = readLoop_marker_unseen [OF assms(1) b e assms(2)]
  show ?thesis
  proof (cases "markersOf items")
    case Nil
    with loop obtain st' where "readLoop items initial = Inr st'"
      and "plotMeasurements.Engine (snd st') = ''''" by auto
    then have "processFile (Contents items) = Inl MissingMarker"
      by (simp add: processFile_def)
    with Nil show ?thesis by simp
  next
    case (Cons e1 more)
    show ?thesis
    proof (cases more)
      case Nil
      with Cons loop obtain st' where "readLoop items initial = Inr st'"
        and "plotMeasurements.Engine (snd st') = logEntry.Engine e1"
        and "Config (snd st') = configOf e1" by auto
      moreover from assms(2) Cons have "logEntry.Engine e1 \<noteq> ''''" by simp
      ultimately have "processFile (Contents items) = Inr (reconcile (snd st'))"
        and "plotMeasurements.Engine (reconcile (snd st')) = logEntry.Engine e1"
        and "Config (reconcile (snd st')) = configOf e1"
        by (simp_all add: processFile_def reconcile_Engine)
      with Cons Nil show ?thesis by simp
    next
      case (Cons e2 more')
      with \<open>markersOf items = e1 # more\<close> loop
      have "readLoop items initial = Inl DuplicateMarker" by simp
      then have "processFile (Contents items) = Inl DuplicateMarker"
        by (simp add: processFile_def)
      with Cons \<open>markersOf items = e1 # more\<close> show ?thesis by simp
    qed
  qed
qed

theorem marker_outcomes_witness:
  "list_all wellFormed
     [Decoded (running ''X''), Decoded (counter ''counter get'' (instant 0) 100)] \<and>
   list_all (\<lambda>e. logEntry.Engine e \<noteq> '''')
     (markersOf [Decoded (running ''X''), Decoded (counter ''counter get'' (instant 0) 100)]) \<and>
   markersOf [Decoded (running ''X''), Decoded (counter ''counter get'' (instant 0) 100)]
     = [running ''X''] \<and>
   (\<exists>r. processFile (runFile ''X'' 100) = Inr r \<and>
      plotMeasurements.Engine r = ''X'' \<and> Config r = config244) \<and>
   processFile (runFile ''X'' 100) \<noteq> Inl MissingMarker \<and>
   processFile (runFile ''X'' 100) \<noteq> Inl DuplicateMarker"
proof -
  let ?items = "[Decoded (running ''X''), Decoded (counter ''counter get'' (instant 0) 100)]"
  have wf: "list_all wellFormed ?items"
    by (simp add: wellFormed_def example_defs)
  have mk: "markersOf ?items = [running ''X'']"
    by (simp add: example_defs)
  have named: "list_all (\<lambda>e. logEntry.Engine e \<noteq> '''') (markersOf ?items)"
    unfolding mk by (simp add: example_defs)
  have cfg: "configOf (running ''X'') = config244" "logEntry.Engine (running ''X'') = ''X''"
    by (simp_all add: configOf_def example_defs)
  from marker_outcomes [OF wf named] mk cfg
  have "\<exists>r. processFile (Contents ?items) = Inr r \<and>
      plotMeasurements.Engine r = ''X'' \<and> Config r = config244"
    and "processFile (Contents ?items) \<noteq> Inl MissingMarker"
    and "processFile (Contents ?items) \<noteq> Inl DuplicateMarker"
    by auto
  with wf named mk show ?thesis unfolding runFile_def by blast
qed

text \<open>
  A record that does not decode ends the run with a decode error although one marker
  was read; and a marker with an empty engine name is not counted as a marker.
\<close>

theorem marker_seen_yet_no_run:
  "markersOf [Decoded (running ''X''), Malformed] = [running ''X''] \<and>
   processFile (Contents [Decoded (running ''X''), Malformed]) = Inl DecodeError \<and>
   markersOf [Decoded (running '''')] = [running ''''] \<and>
   processFile (Contents [Decoded (running '''')]) = Inl MissingMarker"
  by (simp add: processFile_defs example_defs)

subsection \<open>A baseline at the zero instant\<close>

text \<open>
  Claim C8. Two consecutive records with the same elapsed offset are to give one
  offset. \<open>processFile\<close> tests \<open>start.IsZero()\<close> to see whether the baseline is set, so
  when the first timestamp is the zero instant the baseline stays unset: the next
  record, stamped the same, adds a second offset zero.
\<close>

theorem zero_instant_not_coalesced:
  "processFile zeroInstantFile
     = Inr \<lparr>plotMeasurements.Engine = ''X'', Config = config244, Timestamps = [0, 0],
            plotMeasurements.Data = [(''get rate'', [[100], [150]])]\<rparr>"
  by (simp add: zeroInstantFile_def processFile_defs example_defs)

subsection \<open>The rows of a series\<close>

lemma appendData_rows:
  assumes "\<forall>nv \<in> set (plotMeasurements.Data m). \<forall>row \<in> set (snd nv). P (fst nv) row"
    and "P n r"
  shows "\<forall>nv \<in> set (plotMeasurements.Data (appendData n r m)).
           \<forall>row \<in> set (snd nv). P (fst nv) row"
proof
  fix nv assume "nv \<in> set (plotMeasurements.Data (appendData n r m))"
  then have "nv = (n, lookup (plotMeasurements.Data m) n @ [r]) \<or>
             nv \<in> set (plotMeasurements.Data m)"
    by (auto simp: appendData_def dest: set_update_cases)
  moreover have "\<forall>row \<in> set (lookup (plotMeasurements.Data m) n). P n row"
  proof (cases "lookup (plotMeasurements.Data m) n = []")
    case True
    then show ?thesis by simp
  next
    case False
    from lookup_in_set [OF this] assms(1) show ?thesis by fastforce
  qed
  ultimately show "\<forall>row \<in> set (snd nv). P (fst nv) row"
    using assms by auto
qed

lemma dispatch_rows:
  assumes "dispatch entry m = Inr m'"
    and "\<forall>nv \<in> set (plotMeasurements.Data m). \<forall>row \<in> set (snd nv). P (fst nv) row"
    and "\<forall>n r. metricOf entry = Some (n, r) \<longrightarrow> P n r"
  shows "\<forall>nv \<in> set (plotMeasurements.Data m'). \<forall>row \<in> set (snd nv). P (fst nv) row"
proof (cases "Message entry = ''running''")
  case True
  from dispatch_running_Data [OF True assms(1)] assms(2) show ?thesis by simp
next
  case False
  show ?thesis
  proof (cases "metricOf entry")
    case None
    with dispatch_metric [OF False, of m] assms(1,2) show ?thesis by simp
  next
    case (Some nr)
    with assms(3) have "P (fst nr) (snd nr)" by (cases nr) simp
    from appendData_rows [where P = P, OF assms(2) this]
      Some dispatch_metric [OF False, of m] assms(1)
    show ?thesis by simp
  qed
qed

lemma readLoop_rows:
  assumes "readLoop items st = Inr st'"
    and "\<forall>nv \<in> set (plotMeasurements.Data (snd st)). \<forall>row \<in> set (snd nv). P (fst nv) row"
    and "\<forall>entry n r. Decoded entry \<in> set items \<and> metricOf entry = Some (n, r) \<longrightarrow> P n r"
  shows "\<forall>nv \<in> set (plotMeasurements.Data (snd st')). \<forall>row \<in> set (snd nv). P (fst nv) row"
  using assms
proof (induction items arbitrary: st)
  case Nil
  then show ?case by auto
next
  case (Cons item rest)
  show ?case
  proof (cases item)
    case Malformed
    with Cons.prems(1) show ?thesis by simp
  next
    case (Decoded entry)
    with Cons.prems(1) obtain st1 where st1: "step entry st = Inr st1"
      and rest: "readLoop rest st1 = Inr st'"
      by (auto split: sum.splits)
    from st1 obtain st0 where o: "observe (Timestamp entry) st = Inr st0"
      and d: "dispatch entry (snd st0) = Inr (snd st1)"
      by (auto simp: step_def split: sum.splits)
    from observe_Data [OF o] Cons.prems(2)
    have "\<forall>nv \<in> set (plotMeasurements.Data (snd st0)). \<forall>row \<in> set (snd nv). P (fst nv) row"
      by simp
    moreover from Cons.prems(3) Decoded
    have "\<forall>n r. metricOf entry = Some (n, r) \<longrightarrow> P n r" by auto
    ultimately
    have "\<forall>nv \<in> set (plotMeasurements.Data (snd st1)). \<forall>row \<in> set (snd nv). P (fst nv) row"
      by (rule dispatch_rows [OF d])
    moreover from Cons.prems(3)
    have "\<forall>entry n r. Decoded entry \<in> set rest \<and> metricOf entry = Some (n, r) \<longrightarrow> P n r"
      by auto
    ultimately show ?thesis by (rule Cons.IH [OF rest])
  qed
qed

text \<open>
  Every row of a series of an accepted file is the sample of a record of the file, under
  the name of its metric; for a metric whose name does not contain \<open>rate\<close> it is the
  mean, the minimum and the maximum of the record, in this order.
\<close>

lemma processFile_rows:
  assumes "processFile (Contents items) = Inr r"
    and "(n, rows) \<in> set (plotMeasurements.Data r)" and "row \<in> set rows"
  shows "\<exists>entry. Decoded entry \<in> set items \<and> metricOf entry = Some (n, row)"
proof -
  from assms(1) obtain st where loop: "readLoop items initial = Inr st"
    and r: "r = reconcile (snd st)"
    by (auto elim: processFile_InrD)
  let ?P = "\<lambda>n row. \<exists>entry. Decoded entry \<in> set items \<and> metricOf entry = Some (n, row)"
  have "\<forall>nv \<in> set (plotMeasurements.Data (snd st)). \<forall>row \<in> set (snd nv). ?P (fst nv) row"
    by (rule readLoop_rows [OF loop]) (auto simp: initial_def)
  moreover from assms(2,3) r obtain rows' where "(n, rows') \<in> set (plotMeasurements.Data (snd st))"
    and "row \<in> set rows'"
    by (auto simp: reconcile_def Let_def dest: in_set_takeD)
  ultimately show ?thesis by fastforce
qed

lemma metricOf_latency:
  assumes "metricOf entry = Some (n, row)" and "\<not> Contains n ''rate''"
  shows "row = [Mean_v entry, Min_v entry, Max_v entry]"
  using assms by (auto simp: metricOf_def split: if_splits)

lemma metricOf_rate:
  assumes "metricOf entry = Some (n, row)" and "Contains n ''rate''"
  shows "row = [Rate entry]"
  using assms by (auto simp: metricOf_def split: if_splits)

end
